theory Spec2Isabelle
  imports
    Complex_Main
    "HOL-Library.Sublist"
    "HOL-Library.Multiset"
    "HOL-Library.Char_ord"
    "HOL-Library.List_Lexorder"
begin

section \<open>Data model of the dashboard script (app.py)\<close>

text \<open>
  The script holds one pandas DataFrame read from \<^verbatim>\<open>AI_Job_Market_Trends.csv\<close>.
  A row of the frame is a record with one field per named column. A text cell is
  \<open>Some s\<close>, or \<open>None\<close> when the cell is missing (pandas' NaN); the Salary column is
  numeric, \<open>Some q\<close> or \<open>None\<close> (NaN). A Python \<open>str\<close> is represented by the bytes of its
  UTF-8 encoding, so byte-wise lexicographic order is Python's order of strings.
  Numbers are exact rationals: rounding of 64-bit floats is not modelled.

  A table carries the names of its columns in file order (the Date column is optional;
  the script tests \<^verbatim>\<open>'Date' in filtered_df.columns\<close>) and its rows in index order.
  The five columns the script reads by name are fields of every row: a file without one
  of them, on which the script stops with a \<open>KeyError\<close> at the first use of the
  column, is not a table of this model.
\<close>

datatype col = Job_Title | Industry | Location | Salary | Skills | Date

record row =
  job_title :: "string option"
  industry :: "string option"
  location :: "string option"
  salary :: "rat option"
  skills :: "string option"
  date :: "string option"

record table =
  columns :: "col list"
  rows :: "row list"

section \<open>Filter engine (lines 52--64)\<close>

text \<open>
  \<^verbatim>\<open>Series.unique()\<close>: the distinct values of a column in order of first appearance;
  a missing value is one of them.
\<close>

primrec unique :: "'a list \<Rightarrow> 'a list" where
  "unique [] = []"
| "unique (x # xs) = x # filter (\<lambda>y. y \<noteq> x) (unique xs)"

text \<open>
  \<^verbatim>\<open>Series.isin(values)\<close>: membership of the cell in the list of selected values
  (a missing cell matches a missing value of the list).
\<close>

definition isin :: "'a list \<Rightarrow> 'a \<Rightarrow> bool" where
  "isin vals x = (x \<in> set vals)"

text \<open>
  \<^verbatim>\<open>
  filtered_df = df.copy()
  if selected_job:
      filtered_df = filtered_df[filtered_df['Job Title'].isin(selected_job)]
  if selected_industry:
      filtered_df = filtered_df[filtered_df['Industry'].isin(selected_industry)]
  if selected_location:
      filtered_df = filtered_df[filtered_df['Location'].isin(selected_location)]
  \<close>
  A selection is the list a multiselect returns; a list is true when it is not empty.
  Indexing a frame by a boolean column keeps the rows marked true, in order.
\<close>

definition keep_rows :: "(row \<Rightarrow> bool) \<Rightarrow> table \<Rightarrow> table" where
  "keep_rows p df = df\<lparr>rows := filter p (rows df)\<rparr>"

definition filtered_df ::
  "table \<Rightarrow> string option list \<Rightarrow> string option list \<Rightarrow> string option list \<Rightarrow> table" where
  "filtered_df df selected_job selected_industry selected_location =
     (let f0 = df;
          f1 = (if selected_job \<noteq> [] then keep_rows (\<lambda>r. isin selected_job (job_title r)) f0 else f0);
          f2 = (if selected_industry \<noteq> [] then keep_rows (\<lambda>r. isin selected_industry (industry r)) f1
                else f1);
          f3 = (if selected_location \<noteq> [] then keep_rows (\<lambda>r. isin selected_location (location r)) f2
                else f2)
      in f3)"

section \<open>Aggregators (lines 69--115)\<close>

subsection \<open>Library operations on columns\<close>

text \<open>\<^verbatim>\<open>dropna()\<close>: the values of a column that are not missing, in order.\<close>

fun dropna :: "'a option list \<Rightarrow> 'a list" where
  "dropna [] = []"
| "dropna (None # xs) = dropna xs"
| "dropna (Some x # xs) = x # dropna xs"

text \<open>
  \<^verbatim>\<open>mean()\<close> skips missing values; the mean of no value at all is missing (NaN).
\<close>

definition mean :: "rat option list \<Rightarrow> rat option" where
  "mean xs = (let ys = dropna xs in if ys = [] then None else Some (sum_list ys / of_nat (length ys)))"

text \<open>
  A descending sort that keeps equal keys in their original order: the list is reversed,
  sorted ascending by a stable sort and reversed again. This is how Python's
  \<^verbatim>\<open>sorted(..., reverse=True)\<close> and pandas' \<^verbatim>\<open>sort_values(ascending=False)\<close> proceed.
  pandas' default sort kind does not promise an order among equal keys; no theorem about
  a pandas sort below depends on that order.
\<close>

definition sort_desc :: "('a \<Rightarrow> 'k::linorder) \<Rightarrow> 'a list \<Rightarrow> 'a list" where
  "sort_desc key xs = rev (sort_key key (rev xs))"

text \<open>
  \<^verbatim>\<open>groupby(by)[val].mean()\<close>: one group per distinct non-missing key, the keys sorted
  ascending; each group holds the rows of that key.
\<close>

definition group_keys :: "string option list \<Rightarrow> string list" where
  "group_keys ks = sort (unique (dropna ks))"

definition groupby_mean ::
  "(row \<Rightarrow> string option) \<Rightarrow> (row \<Rightarrow> rat option) \<Rightarrow> row list \<Rightarrow> (string \<times> rat option) list" where
  "groupby_mean by val rs =
     map (\<lambda>k. (k, mean (map val (filter (\<lambda>r. by r = Some k) rs)))) (group_keys (map by rs))"

text \<open>
  \<^verbatim>\<open>sort_values(ascending=False)\<close> on a series of numbers: the entries that are not
  missing in descending order, then the missing ones (\<^verbatim>\<open>na_position='last'\<close>).
\<close>

fun notna :: "('k \<times> 'v option) list \<Rightarrow> ('k \<times> 'v) list" where
  "notna [] = []"
| "notna ((k, None) # s) = notna s"
| "notna ((k, Some x) # s) = (k, x) # notna s"

definition sort_values_desc :: "('k \<times> rat option) list \<Rightarrow> ('k \<times> rat option) list" where
  "sort_values_desc s =
     map (\<lambda>(k, x). (k, Some x)) (sort_desc snd (notna s)) @ filter (\<lambda>(k, v). v = None) s"

text \<open>
  \<^verbatim>\<open>value_counts()\<close>: the distinct non-missing values with the number of their
  occurrences, in descending order of that number.
\<close>

definition value_counts :: "'a option list \<Rightarrow> ('a \<times> nat) list" where
  "value_counts xs = (let ys = dropna xs in sort_desc snd (map (\<lambda>k. (k, count_list ys k)) (unique ys)))"

subsection \<open>Mean salary by job title, salary by industry, jobs by location, histogram\<close>

text \<open>
  \<^verbatim>\<open>avg_salary_by_job =
    filtered_df.groupby('Job Title')['Salary'].mean().sort_values(ascending=False)\<close>
\<close>

definition avg_salary_by_job :: "table \<Rightarrow> (string \<times> rat option) list" where
  "avg_salary_by_job v = sort_values_desc (groupby_mean job_title salary (rows v))"

text \<open>
  \<^verbatim>\<open>px.box(filtered_df, x='Industry', y='Salary', ...)\<close>: the (Industry, Salary) pairs
  of the view are handed to the chart as they are.
\<close>

definition box_points :: "table \<Rightarrow> (string option \<times> rat option) list" where
  "box_points v = map (\<lambda>r. (industry r, salary r)) (rows v)"

text \<open>
  \<^verbatim>\<open>loc_count = filtered_df['Location'].value_counts().reset_index()\<close>, its two columns
  renamed Location and Count.
\<close>

definition loc_count :: "table \<Rightarrow> (string \<times> nat) list" where
  "loc_count v = value_counts (map location (rows v))"

text \<open>
  \<^verbatim>\<open>sns.histplot(filtered_df['Salary'], bins=20, kde=True, ax=ax)\<close>: the script hands
  the Salary column to the plotting library, which bins it and fits the density.
\<close>

definition histplot_data :: "table \<Rightarrow> rat option list" where
  "histplot_data v = map salary (rows v)"

subsection \<open>Top skills\<close>

text \<open>
  \<^verbatim>\<open>str.split(',')\<close>: the pieces between the separators; a string without separator
  is its own single piece, and the empty string has the single piece \<open>''\<close>.
\<close>

fun split :: "char \<Rightarrow> string \<Rightarrow> string list" where
  "split sep [] = [[]]"
| "split sep (c # cs) =
     (if c = sep then [] # split sep cs
      else (case split sep cs of w # ws \<Rightarrow> (c # w) # ws | [] \<Rightarrow> [[c]]))"

text \<open>
  \<^verbatim>\<open>str.strip()\<close> removes the white space at both ends. The white space of Python's
  \<open>str\<close> are the code points U+0009..U+000D, U+001C..U+0020, U+0085, U+00A0, U+1680,
  U+2000..U+200A, U+2028, U+2029, U+202F, U+205F and U+3000, here in UTF-8.
\<close>

definition whitespace :: "string list" where
  "whitespace =
     [[CHR 0x09], [CHR 0x0A], [CHR 0x0B], [CHR 0x0C], [CHR 0x0D],
      [CHR 0x1C], [CHR 0x1D], [CHR 0x1E], [CHR 0x1F], [CHR 0x20],
      [CHR 0xC2, CHR 0x85], [CHR 0xC2, CHR 0xA0],
      [CHR 0xE1, CHR 0x9A, CHR 0x80],
      [CHR 0xE2, CHR 0x80, CHR 0x80], [CHR 0xE2, CHR 0x80, CHR 0x81],
      [CHR 0xE2, CHR 0x80, CHR 0x82], [CHR 0xE2, CHR 0x80, CHR 0x83],
      [CHR 0xE2, CHR 0x80, CHR 0x84], [CHR 0xE2, CHR 0x80, CHR 0x85],
      [CHR 0xE2, CHR 0x80, CHR 0x86], [CHR 0xE2, CHR 0x80, CHR 0x87],
      [CHR 0xE2, CHR 0x80, CHR 0x88], [CHR 0xE2, CHR 0x80, CHR 0x89],
      [CHR 0xE2, CHR 0x80, CHR 0x8A],
      [CHR 0xE2, CHR 0x80, CHR 0xA8], [CHR 0xE2, CHR 0x80, CHR 0xA9],
      [CHR 0xE2, CHR 0x80, CHR 0xAF], [CHR 0xE2, CHR 0x81, CHR 0x9F],
      [CHR 0xE3, CHR 0x80, CHR 0x80]]"

text \<open>The number of bytes of the white space code point a string starts (ends) with, or 0.\<close>

definition space_at_head :: "string \<Rightarrow> nat" where
  "space_at_head s = (case filter (\<lambda>w. prefix w s) whitespace of [] \<Rightarrow> 0 | w # _ \<Rightarrow> length w)"

definition space_at_end :: "string \<Rightarrow> nat" where
  "space_at_end s = (case filter (\<lambda>w. suffix w s) whitespace of [] \<Rightarrow> 0 | w # _ \<Rightarrow> length w)"

lemma space_at_head_le: "space_at_head s \<le> length s"
  by (auto simp: space_at_head_def prefix_length_le filter_eq_Cons_iff split: list.splits)

lemma space_at_end_le: "space_at_end s \<le> length s"
  by (auto simp: space_at_end_def suffix_length_le filter_eq_Cons_iff split: list.splits)

function lstrip :: "string \<Rightarrow> string" where
  "lstrip s = (if space_at_head s = 0 then s else lstrip (drop (space_at_head s) s))"
  by pat_completeness auto
termination
proof (relation "measure length")
  fix s assume "space_at_head s \<noteq> 0"
  moreover have "space_at_head s \<le> length s" by (rule space_at_head_le)
  ultimately show "(drop (space_at_head s) s, s) \<in> measure length" by simp
qed simp

function rstrip :: "string \<Rightarrow> string" where
  "rstrip s = (if space_at_end s = 0 then s else rstrip (take (length s - space_at_end s) s))"
  by pat_completeness auto
termination
proof (relation "measure length")
  fix s assume "space_at_end s \<noteq> 0"
  moreover have "space_at_end s \<le> length s" by (rule space_at_end_le)
  ultimately show "(take (length s - space_at_end s) s, s) \<in> measure length" by simp
qed simp

declare lstrip.simps [simp del] rstrip.simps [simp del]

definition strip :: "string \<Rightarrow> string" where
  "strip s = rstrip (lstrip s)"

text \<open>
  \<^verbatim>\<open>Counter(all_skills)\<close> counts in a dictionary that keeps its keys in the order of
  their first insertion: an association list, a new key appended at the end.
\<close>

fun counter_add :: "('a \<times> nat) list \<Rightarrow> 'a \<Rightarrow> ('a \<times> nat) list" where
  "counter_add [] k = [(k, 1)]"
| "counter_add ((k', n) # kvs) k =
     (if k' = k then (k', n + 1) # kvs else (k', n) # counter_add kvs k)"

definition Counter :: "'a list \<Rightarrow> ('a \<times> nat) list" where
  "Counter xs = foldl counter_add [] xs"

text \<open>
  \<^verbatim>\<open>most_common(n)\<close> is \<^verbatim>\<open>heapq.nlargest(n, items, key=count)\<close>, documented as
  \<^verbatim>\<open>sorted(items, key=count, reverse=True)[:n]\<close>.
\<close>

definition most_common :: "nat \<Rightarrow> ('a \<times> nat) list \<Rightarrow> ('a \<times> nat) list" where
  "most_common n c = take n (sort_desc snd c)"

text \<open>
  \<^verbatim>\<open>
  skills_series = filtered_df['Skills'].dropna().apply(lambda x: [s.strip() for s in x.split(',')])
  all_skills = [skill for sublist in skills_series for skill in sublist]
  top_skills = pd.DataFrame(Counter(all_skills).most_common(10), columns=['Skill', 'Count'])
  \<close>
\<close>

definition skills_series :: "table \<Rightarrow> string list list" where
  "skills_series v = map (\<lambda>x. map strip (split CHR '','' x)) (dropna (map skills (rows v)))"

definition all_skills :: "table \<Rightarrow> string list" where
  "all_skills v = concat (skills_series v)"

definition top_skills :: "table \<Rightarrow> (string \<times> nat) list" where
  "top_skills v = most_common 10 (Counter (all_skills v))"

subsection \<open>Monthly trend (lines 107--112)\<close>

text \<open>
  A parsed date. \<^verbatim>\<open>pd.to_datetime(column, errors='coerce')\<close> is the library's reader
  of dates: it is a parameter \<open>parse\<close> of the model, which reads the text of a cell, given
  the column it stands in (the library may infer the format from the column), and
  returns \<open>None\<close> (NaT) for a text it cannot read. A missing cell stays missing.
\<close>

datatype timestamp = Timestamp (year: int) (month: nat) (day: nat)

type_synonym date_parser = "string option list \<Rightarrow> string \<Rightarrow> timestamp option"

definition to_datetime :: "date_parser \<Rightarrow> string option list \<Rightarrow> timestamp option list" where
  "to_datetime parse col = map (\<lambda>c. case c of None \<Rightarrow> None | Some s \<Rightarrow> parse col s) col"

text \<open>\<^verbatim>\<open>dropna(subset=['Date'])\<close> on the (Date, Salary) pairs of the rows.\<close>

fun dropna_date :: "(timestamp option \<times> 'a) list \<Rightarrow> (timestamp \<times> 'a) list" where
  "dropna_date [] = []"
| "dropna_date ((None, x) # ds) = dropna_date ds"
| "dropna_date ((Some t, x) # ds) = (t, x) # dropna_date ds"

text \<open>
  Months are counted from year 0: month \<open>k\<close> is month \<open>k mod 12 + 1\<close> of year \<open>k div 12\<close>.
  \<^verbatim>\<open>groupby(pd.Grouper(key='Date', freq='M'))['Salary'].mean()\<close> makes one bin for
  every month from the month of the earliest date to the month of the latest one, and
  takes the mean of the salaries of each bin; a bin is labelled here by its year and
  month (pandas labels it by the last day of the month).
\<close>

definition month_index :: "timestamp \<Rightarrow> int" where
  "month_index t = year t * 12 + int (month t) - 1"

definition month_label :: "int \<Rightarrow> int \<times> nat" where
  "month_label k = (k div 12, nat (k mod 12) + 1)"

definition grouper_mean :: "(timestamp \<times> rat option) list \<Rightarrow> ((int \<times> nat) \<times> rat option) list" where
  "grouper_mean ds =
     (case map (\<lambda>d. month_index (fst d)) ds of
        [] \<Rightarrow> []
      | k # ks \<Rightarrow>
          map (\<lambda>m. (month_label m, mean (map snd (filter (\<lambda>d. month_index (fst d) = m) ds))))
            [foldl min k ks .. foldl max k ks])"

text \<open>
  \<^verbatim>\<open>
  if 'Date' in filtered_df.columns:
      df_time = filtered_df.copy()
      df_time['Date'] = pd.to_datetime(df_time['Date'], errors='coerce')
      df_time = df_time.dropna(subset=['Date'])
      df_time = df_time.groupby(pd.Grouper(key='Date', freq='M'))['Salary'].mean().reset_index()
  \<close>
  The result is \<open>None\<close> when the table has no Date column: the trend is not computed.
\<close>

definition monthly_trend :: "date_parser \<Rightarrow> row list \<Rightarrow> ((int \<times> nat) \<times> rat option) list" where
  "monthly_trend parse rs =
     grouper_mean (dropna_date (zip (to_datetime parse (map date rs)) (map salary rs)))"

definition df_time :: "date_parser \<Rightarrow> table \<Rightarrow> ((int \<times> nat) \<times> rat option) list option" where
  "df_time parse v =
     (if Date \<in> set (columns v) then Some (monthly_trend parse (rows v)) else None)"

text \<open>
  An instance of the date reader for the examples below: it reads an ISO 8601 calendar
  date \<^verbatim>\<open>YYYY-MM-DD\<close>, as \<^verbatim>\<open>pd.to_datetime\<close> does, and nothing else.
\<close>

definition digit :: "char \<Rightarrow> int option" where
  "digit c = (if CHR ''0'' \<le> c \<and> c \<le> CHR ''9'' then Some (of_char c - 48) else None)"

fun digits :: "int \<Rightarrow> string \<Rightarrow> int option" where
  "digits acc [] = Some acc"
| "digits acc (c # cs) = (case digit c of None \<Rightarrow> None | Some d \<Rightarrow> digits (acc * 10 + d) cs)"

definition days_in_month :: "int \<Rightarrow> int \<Rightarrow> int" where
  "days_in_month y m =
     (if m = 2 then (if y mod 4 = 0 \<and> (y mod 100 \<noteq> 0 \<or> y mod 400 = 0) then 29 else 28)
      else if m \<in> {4, 6, 9, 11} then 30 else 31)"

definition iso_date :: date_parser where
  "iso_date col s =
     (if length s = 10 \<and> s ! 4 = CHR ''-'' \<and> s ! 7 = CHR ''-''
      then (case (digits 0 (take 4 s), digits 0 (take 2 (drop 5 s)), digits 0 (drop 8 s)) of
              (Some y, Some m, Some d) \<Rightarrow>
                if 1 \<le> m \<and> m \<le> 12 \<and> 1 \<le> d \<and> d \<le> days_in_month y m
                then Some (Timestamp y (nat m) (nat d)) else None
            | _ \<Rightarrow> None)
      else None)"

section \<open>Exporter (lines 119--120) and loader (line 38)\<close>

subsection \<open>Frames of cells\<close>

text \<open>
  What a loaded frame holds in a cell: nothing (NaN), a number, a truth value or a
  text. A frame is the list of its columns, each a name with its cells; the value of a
  cell does not record the column's dtype, so that 100000 read as an integer and
  100000.0 read as a float are the same cell. \<open>frame_of\<close> is the view as a frame: the
  Salary column holds numbers, the other columns hold texts.
\<close>

datatype cell = NaN | Num rat | Bool bool | Str string

definition col_name :: "col \<Rightarrow> string" where
  "col_name c =
     (case c of Job_Title \<Rightarrow> ''Job Title'' | Industry \<Rightarrow> ''Industry'' | Location \<Rightarrow> ''Location''
      | Salary \<Rightarrow> ''Salary'' | Skills \<Rightarrow> ''Skills'' | Date \<Rightarrow> ''Date'')"

definition text_cell :: "string option \<Rightarrow> cell" where
  "text_cell x = (case x of None \<Rightarrow> NaN | Some s \<Rightarrow> Str s)"

definition num_cell :: "rat option \<Rightarrow> cell" where
  "num_cell x = (case x of None \<Rightarrow> NaN | Some q \<Rightarrow> Num q)"

definition cell_of :: "col \<Rightarrow> row \<Rightarrow> cell" where
  "cell_of c r =
     (case c of Job_Title \<Rightarrow> text_cell (job_title r) | Industry \<Rightarrow> text_cell (industry r)
      | Location \<Rightarrow> text_cell (location r) | Salary \<Rightarrow> num_cell (salary r)
      | Skills \<Rightarrow> text_cell (skills r) | Date \<Rightarrow> text_cell (date r))"

definition frame_of :: "table \<Rightarrow> (string \<times> cell list) list" where
  "frame_of v = map (\<lambda>c. (col_name c, map (cell_of c) (rows v))) (columns v)"

subsection \<open>\<^verbatim>\<open>csv = filtered_df.to_csv(index=False).encode('utf-8')\<close>\<close>

text \<open>
  \<^verbatim>\<open>to_csv\<close> writes a missing cell as the empty text (\<^verbatim>\<open>na_rep=''\<close>), a text as it is
  and a number in the library's notation for numbers, which is the parameter \<open>fmt\<close> of
  the model. It hands the rows to Python's \<^verbatim>\<open>csv.writer\<close> with the delimiter \<^verbatim>\<open>,\<close>,
  the quote character \<^verbatim>\<open>"\<close>, the line terminator \<^verbatim>\<open>\n\<close> and minimal quoting: a field
  is quoted when it contains the delimiter, the quote character or a character of the
  line terminator, a quote character inside it is doubled, and a row that is a single
  empty field is written as \<^verbatim>\<open>""\<close>. The index is not written.
\<close>

definition cell_text :: "(rat \<Rightarrow> string) \<Rightarrow> cell \<Rightarrow> string" where
  "cell_text fmt x =
     (case x of NaN \<Rightarrow> [] | Num q \<Rightarrow> fmt q | Bool b \<Rightarrow> (if b then ''True'' else ''False'') | Str s \<Rightarrow> s)"

definition LF :: char where "LF = CHR 0x0A"
definition CR :: char where "CR = CHR 0x0D"
definition QUOTE :: char where "QUOTE = CHR 0x22"
definition COMMA :: char where "COMMA = CHR '',''"
definition SPACE :: char where "SPACE = CHR 0x20"
definition TAB :: char where "TAB = CHR 0x09"

definition needs_quote :: "string \<Rightarrow> bool" where
  "needs_quote f = list_ex (\<lambda>c. c = COMMA \<or> c = QUOTE \<or> c = LF) f"

fun escape_quotes :: "string \<Rightarrow> string" where
  "escape_quotes [] = []"
| "escape_quotes (c # cs) = (if c = QUOTE then QUOTE # QUOTE # escape_quotes cs else c # escape_quotes cs)"

definition quote_field :: "string \<Rightarrow> string" where
  "quote_field f = (if needs_quote f then QUOTE # escape_quotes f @ [QUOTE] else f)"

text \<open>\<^verbatim>\<open>sep.join(pieces)\<close>.\<close>

fun join :: "'a \<Rightarrow> 'a list list \<Rightarrow> 'a list" where
  "join sep [] = []"
| "join sep [w] = w"
| "join sep (w # ws) = w @ sep # join sep ws"

definition csv_line :: "string list \<Rightarrow> string" where
  "csv_line fs = (if fs = [[]] then [QUOTE, QUOTE, LF] else join COMMA (map quote_field fs) @ [LF])"

text \<open>The records written: the header, then one record of cell texts per row.\<close>

definition export_records :: "(rat \<Rightarrow> string) \<Rightarrow> table \<Rightarrow> string list list" where
  "export_records fmt v =
     map col_name (columns v) # map (\<lambda>r. map (\<lambda>c. cell_text fmt (cell_of c r)) (columns v)) (rows v)"

definition to_csv :: "(rat \<Rightarrow> string) \<Rightarrow> table \<Rightarrow> string" where
  "to_csv fmt v = concat (map csv_line (export_records fmt v))"

text \<open>
  \<^verbatim>\<open>str.encode('utf-8')\<close> returns the bytes of the UTF-8 encoding of a \<open>str\<close>, which are
  the representation of the \<open>str\<close> here.
\<close>

definition encode_utf8 :: "string \<Rightarrow> string" where
  "encode_utf8 s = s"

definition csv :: "(rat \<Rightarrow> string) \<Rightarrow> table \<Rightarrow> string" where
  "csv fmt v = encode_utf8 (to_csv fmt v)"

subsection \<open>\<^verbatim>\<open>df = pd.read_csv(file_name)\<close>\<close>

text \<open>
  The loader's tokenizer with the options the script leaves at their defaults: the
  delimiter \<^verbatim>\<open>,\<close>, the quote character \<^verbatim>\<open>"\<close> doubled inside a quoted field, a line
  ended by \<^verbatim>\<open>\n\<close>, \<^verbatim>\<open>\r\<close> or \<^verbatim>\<open>\r\n\<close>, blank lines skipped, also those of spaces and
  tabs only. It is a state machine over the characters; the state carries the field
  being read, the fields of the record being read and the records read so far. A line
  that starts with spaces or tabs is read in the state \<open>WHITESPACE_LINE\<close> until another
  character shows that it is not blank; the blanks read are then the start of its first
  field.
\<close>

datatype parser_state =
  START_RECORD | START_FIELD | IN_FIELD | IN_QUOTED_FIELD | QUOTE_IN_QUOTED_FIELD
  | EAT_CRNL | EAT_CRNL_NOP | WHITESPACE_LINE

type_synonym tokenizer = "parser_state \<times> string \<times> string list \<times> string list list"

definition start_field :: "char \<Rightarrow> string list \<Rightarrow> string list list \<Rightarrow> tokenizer" where
  "start_field c rec recs =
     (if c = LF then (START_RECORD, [], [], recs @ [rec @ [[]]])
      else if c = CR then (EAT_CRNL, [], rec @ [[]], recs)
      else if c = QUOTE then (IN_QUOTED_FIELD, [], rec, recs)
      else if c = COMMA then (START_FIELD, [], rec @ [[]], recs)
      else (IN_FIELD, [c], rec, recs))"

definition in_field :: "char \<Rightarrow> string \<Rightarrow> string list \<Rightarrow> string list list \<Rightarrow> tokenizer" where
  "in_field c fld rec recs =
     (if c = LF then (START_RECORD, [], [], recs @ [rec @ [fld]])
      else if c = CR then (EAT_CRNL, [], rec @ [fld], recs)
      else if c = COMMA then (START_FIELD, [], rec @ [fld], recs)
      else (IN_FIELD, fld @ [c], rec, recs))"

definition start_record :: "char \<Rightarrow> string list list \<Rightarrow> tokenizer" where
  "start_record c recs =
     (if c = LF then (START_RECORD, [], [], recs)
      else if c = CR then (EAT_CRNL_NOP, [], [], recs)
      else if c = SPACE \<or> c = TAB then (WHITESPACE_LINE, [c], [], recs)
      else start_field c [] recs)"

fun step :: "tokenizer \<Rightarrow> char \<Rightarrow> tokenizer" where
  "step (START_RECORD, fld, rec, recs) c = start_record c recs"
| "step (START_FIELD, fld, rec, recs) c = start_field c rec recs"
| "step (IN_FIELD, fld, rec, recs) c = in_field c fld rec recs"
| "step (IN_QUOTED_FIELD, fld, rec, recs) c =
     (if c = QUOTE then (QUOTE_IN_QUOTED_FIELD, fld, rec, recs)
      else (IN_QUOTED_FIELD, fld @ [c], rec, recs))"
| "step (QUOTE_IN_QUOTED_FIELD, fld, rec, recs) c =
     (if c = QUOTE then (IN_QUOTED_FIELD, fld @ [QUOTE], rec, recs)
      else if c = COMMA then (START_FIELD, [], rec @ [fld], recs)
      else if c = LF then (START_RECORD, [], [], recs @ [rec @ [fld]])
      else if c = CR then (EAT_CRNL, [], rec @ [fld], recs)
      else (IN_FIELD, fld @ [c], rec, recs))"
| "step (EAT_CRNL, fld, rec, recs) c =
     (if c = LF then (START_RECORD, [], [], recs @ [rec]) else start_record c (recs @ [rec]))"
| "step (EAT_CRNL_NOP, fld, rec, recs) c =
     (if c = LF \<or> c = COMMA then (START_RECORD, [], [], recs) else start_record c recs)"
| "step (WHITESPACE_LINE, fld, rec, recs) c =
     (if c = LF then (START_RECORD, [], [], recs)
      else if c = CR then (EAT_CRNL_NOP, [], [], recs)
      else if c = SPACE \<or> c = TAB then (WHITESPACE_LINE, fld @ [c], [], recs)
      else in_field c fld [] recs)"

datatype error = EmptyDataError | ParserError

fun handle_eof :: "tokenizer \<Rightarrow> error + string list list" where
  "handle_eof (START_RECORD, fld, rec, recs) = Inr recs"
| "handle_eof (EAT_CRNL_NOP, fld, rec, recs) = Inr recs"
| "handle_eof (WHITESPACE_LINE, fld, rec, recs) = Inr recs"
| "handle_eof (IN_QUOTED_FIELD, fld, rec, recs) = Inl ParserError"
| "handle_eof (EAT_CRNL, fld, rec, recs) = Inr (recs @ [rec])"
| "handle_eof (st, fld, rec, recs) = Inr (recs @ [rec @ [fld]])"

definition csv_records :: "string \<Rightarrow> error + string list list" where
  "csv_records text = handle_eof (foldl step (START_RECORD, [], [], []) text)"

text \<open>
  The loader infers the type of each column from its fields. A field that is one of the
  default markers of a missing value is NaN. When every other field of the column reads
  as a number the column is numeric; otherwise, when every other field is one of the
  words for true and false, the column holds truth values; otherwise it holds the texts.
  The library's reader of numbers is the parameter \<open>num\<close> of the model.
\<close>

definition na_values :: "string list" where
  "na_values =
     ['''', ''#N/A'', ''#N/A N/A'', ''#NA'', ''-1.#IND'', ''-1.#QNAN'', ''-NaN'', ''-nan'',
      ''1.#IND'', ''1.#QNAN'', ''<NA>'', ''N/A'', ''NA'', ''NULL'', ''NaN'', ''None'', ''n/a'',
      ''nan'', ''null'']"

definition true_values :: "string list" where
  "true_values = [''True'', ''TRUE'', ''true'']"

definition false_values :: "string list" where
  "false_values = [''False'', ''FALSE'', ''false'']"

definition infer_column :: "(string \<Rightarrow> rat option) \<Rightarrow> string list \<Rightarrow> cell list" where
  "infer_column num fs =
     (let present = filter (\<lambda>f. f \<notin> set na_values) fs in
      if list_all (\<lambda>f. num f \<noteq> None) present
      then map (\<lambda>f. if f \<in> set na_values then NaN
                    else (case num f of None \<Rightarrow> NaN | Some q \<Rightarrow> Num q)) fs
      else if list_all (\<lambda>f. f \<in> set (true_values @ false_values)) present
      then map (\<lambda>f. if f \<in> set na_values then NaN else Bool (f \<in> set true_values)) fs
      else map (\<lambda>f. if f \<in> set na_values then NaN else Str f) fs)"

text \<open>
  The first record names the columns. A record shorter than the header is filled up
  with missing cells; a record longer than the header is a parser error (the library
  reads a longer first data record as carrying an index, which this model does not
  follow: the exporter writes no such text).
\<close>

definition pad :: "nat \<Rightarrow> string list \<Rightarrow> string list" where
  "pad n r = r @ replicate (n - length r) []"

definition read_csv :: "(string \<Rightarrow> rat option) \<Rightarrow> string \<Rightarrow> error + (string \<times> cell list) list" where
  "read_csv num text =
     (case csv_records text of
        Inl e \<Rightarrow> Inl e
      | Inr [] \<Rightarrow> Inl EmptyDataError
      | Inr (header # data) \<Rightarrow>
          if list_all (\<lambda>r. length r \<le> length header) data
          then Inr (map (\<lambda>i. (header ! i, infer_column num (map (\<lambda>r. pad (length header) r ! i) data)))
                      [0..<length header])
          else Inl ParserError)"

text \<open>
  An instance of the number formatter and of the number reader for the examples below:
  whole numbers in decimal notation, which the library writes and reads in this way.
\<close>

function show_digits :: "int \<Rightarrow> string" where
  "show_digits n =
     (if n < 10 then [char_of (48 + n)] else show_digits (n div 10) @ [char_of (48 + n mod 10)])"
  by pat_completeness auto
termination
  by (relation "measure nat") auto

declare show_digits.simps [simp del]

definition str_int :: "rat \<Rightarrow> string" where
  "str_int q = (if q < 0 then CHR ''-'' # show_digits (- \<lfloor>q\<rfloor>) else show_digits \<lfloor>q\<rfloor>)"

definition int_literal :: "string \<Rightarrow> rat option" where
  "int_literal s =
     (case s of
        [] \<Rightarrow> None
      | c # cs \<Rightarrow>
          if c = CHR ''-'' then (if cs = [] then None else map_option (\<lambda>n. - of_int n) (digits 0 cs))
          else if c = CHR ''+'' then (if cs = [] then None else map_option of_int (digits 0 cs))
          else map_option of_int (digits 0 s))"

section \<open>Example tables\<close>

text \<open>The three-row table of the specification's scenarios; it has no Date column.\<close>

definition mk_row ::
  "string \<Rightarrow> string \<Rightarrow> string \<Rightarrow> rat \<Rightarrow> string \<Rightarrow> row" where
  "mk_row j i l s k =
     \<lparr>job_title = Some j, industry = Some i, location = Some l, salary = Some s,
      skills = Some k, date = None\<rparr>"

definition scenario_rows :: "row list" where
  "scenario_rows =
     [mk_row ''Data Scientist'' ''Tech'' ''NY'' 100000 ''Python, SQL'',
      mk_row ''Data Scientist'' ''Tech'' ''SF'' 120000 ''Python'',
      mk_row ''Analyst'' ''Finance'' ''NY'' 70000 ''SQL'']"

definition scenario :: table where
  "scenario = \<lparr>columns = [Job_Title, Industry, Location, Salary, Skills], rows = scenario_rows\<rparr>"

text \<open>Tables with a Date column.\<close>

definition all_columns :: "col list" where
  "all_columns = [Job_Title, Industry, Location, Salary, Skills, Date]"

definition dated_row :: "string \<Rightarrow> rat \<Rightarrow> row" where
  "dated_row d s =
     \<lparr>job_title = Some ''Data Scientist'', industry = Some ''Tech'', location = Some ''NY'',
      salary = Some s, skills = Some ''Python'', date = Some d\<rparr>"

definition gap_table :: table where
  "gap_table = \<lparr>columns = all_columns,
                 rows = [dated_row ''2024-01-15'' 100000, dated_row ''2024-03-10'' 120000]\<rparr>"

definition bad_date_table :: table where
  "bad_date_table = \<lparr>columns = all_columns,
                 rows = [dated_row ''not-a-date'' 100000, dated_row ''2024-01-15'' 120000]\<rparr>"

text \<open>A table with eleven distinct skills, one row without Skills.\<close>

definition skills_table :: table where
  "skills_table = \<lparr>columns = [Job_Title, Industry, Location, Salary, Skills],
     rows = [mk_row ''Analyst'' ''Tech'' ''NY'' 1 ''a, b, c, d'',
             (mk_row ''Analyst'' ''Tech'' ''NY'' 2 '''')\<lparr>skills := None\<rparr>,
             mk_row ''Analyst'' ''Tech'' ''SF'' 3 '' e ,f,g , h,i,j,k, b'']\<rparr>"

text \<open>A table whose Location column holds a text that reads as a number.\<close>

definition zip_table :: table where
  "zip_table = \<lparr>columns = [Job_Title, Industry, Location, Salary, Skills],
     rows = [mk_row ''Data Scientist'' ''Tech'' ''NY'' 100000 ''Python, SQL'',
             mk_row ''Data Scientist'' ''Tech'' ''10001'' 120000 ''Python'']\<rparr>"

section \<open>Properties of the filter engine\<close>

lemma rows_keep_rows: "rows (keep_rows p df) = filter p (rows df)"
  by (simp add: keep_rows_def)

lemma columns_keep_rows: "columns (keep_rows p df) = columns df"
  by (simp add: keep_rows_def)

lemma rows_filtered_df:
  "rows (filtered_df df sj si sl) =
     filter (\<lambda>r. (sj = [] \<or> job_title r \<in> set sj) \<and>
                 (si = [] \<or> industry r \<in> set si) \<and>
                 (sl = [] \<or> location r \<in> set sl)) (rows df)"
  by (auto simp: filtered_df_def Let_def rows_keep_rows isin_def intro: filter_cong)

lemma columns_filtered_df: "columns (filtered_df df sj si sl) = columns df"
  by (simp add: filtered_df_def Let_def columns_keep_rows)

lemma table_eqI: "rows a = rows b \<Longrightarrow> columns a = columns b \<Longrightarrow> (a::table) = b"
  by (rule table.equality) simp_all

lemma set_unique: "set (unique xs) = set xs"
  by (induction xs) auto

lemma distinct_unique: "distinct (unique xs)"
  by (induction xs) (auto simp: set_unique)

lemma unique_filter: "unique (filter P xs) = filter P (unique xs)"
proof (induction xs)
  case Nil show ?case by simp
next
  case (Cons x xs)
  show ?case
  proof (cases "P x")
    case True
    have "filter (\<lambda>y. y \<noteq> x) (filter P (unique xs)) = filter P (filter (\<lambda>y. y \<noteq> x) (unique xs))"
      by (simp add: conj_commute)
    with True Cons show ?thesis by simp
  next
    case False
    have "filter P (filter (\<lambda>y. y \<noteq> x) (unique xs)) = filter P (unique xs)"
      using False by (auto intro: filter_cong)
    with False Cons show ?thesis by simp
  qed
qed

text \<open>
  C1. The filtered view consists exactly of the rows of the loaded table, in table
  order, whose Job Title, Industry and Location each lie in the corresponding selection
  or whose corresponding selection is empty; the columns are those of the table.
\<close>

theorem C1_filtered_view_membership:
  "rows (filtered_df df sj si sl) =
     filter (\<lambda>r. (sj = [] \<or> job_title r \<in> set sj) \<and>
                 (si = [] \<or> industry r \<in> set si) \<and>
                 (sl = [] \<or> location r \<in> set sl)) (rows df)
   \<and> columns (filtered_df df sj si sl) = columns df"
  by (simp add: rows_filtered_df columns_filtered_df)

text \<open>
  C1 on the scenario table: selecting Location = {NY} leaves the two NY rows (the Data
  Scientist at 100000 and the Analyst at 70000).
\<close>

theorem C1_filtered_view_membership_witness:
  "rows (filtered_df scenario [] [] [Some ''NY'']) =
     [mk_row ''Data Scientist'' ''Tech'' ''NY'' 100000 ''Python, SQL'',
      mk_row ''Analyst'' ''Finance'' ''NY'' 70000 ''SQL'']"
  using C1_filtered_view_membership [of scenario "[]" "[]" "[Some ''NY'']"]
  by (simp add: scenario_def scenario_rows_def mk_row_def)

text \<open>
  C5. An empty selection for a dimension gives the same filtered view as selecting
  every distinct value of that dimension's column of the loaded table, the other two
  selections being the same; this holds for each of the three dimensions.
\<close>

theorem C5_empty_selection_is_all:
  "filtered_df df [] si sl = filtered_df df (unique (map job_title (rows df))) si sl
   \<and> filtered_df df sj [] sl = filtered_df df sj (unique (map industry (rows df))) sl
   \<and> filtered_df df sj si [] = filtered_df df sj si (unique (map location (rows df)))"
  by (intro conjI table_eqI)
     (auto simp: rows_filtered_df columns_filtered_df set_unique intro!: filter_cong)

text \<open>C5 on the scenario table, for the Job Title dimension.\<close>

theorem C5_empty_selection_is_all_witness:
  "unique (map job_title (rows scenario)) = [Some ''Data Scientist'', Some ''Analyst'']
   \<and> filtered_df scenario [] [] [Some ''NY'']
       = filtered_df scenario [Some ''Data Scientist'', Some ''Analyst''] [] [Some ''NY'']"
proof -
  have u: "unique (map job_title (rows scenario)) = [Some ''Data Scientist'', Some ''Analyst'']"
    by (simp add: scenario_def scenario_rows_def mk_row_def)
  show ?thesis
    using C5_empty_selection_is_all [of scenario "[]" "[Some ''NY'']" "[]"] unfolding u by simp
qed

text \<open>
  C6. The filtered view has at most as many rows as the loaded table, and filtering the
  filtered view again with the same three selections returns it unchanged.
\<close>

theorem C6_filter_shrinks_idempotent:
  "length (rows (filtered_df df sj si sl)) \<le> length (rows df)
   \<and> filtered_df (filtered_df df sj si sl) sj si sl = filtered_df df sj si sl"
  by (intro conjI table_eqI) (auto simp: rows_filtered_df columns_filtered_df)

text \<open>C6 on the scenario table with Location = {NY}: two rows of three.\<close>

theorem C6_filter_shrinks_idempotent_witness:
  "length (rows (filtered_df scenario [] [] [Some ''NY''])) = 2
   \<and> length (rows scenario) = 3
   \<and> filtered_df (filtered_df scenario [] [] [Some ''NY'']) [] [] [Some ''NY'']
       = filtered_df scenario [] [] [Some ''NY'']"
  using C6_filter_shrinks_idempotent [of scenario "[]" "[]" "[Some ''NY'']"]
  by (simp add: rows_filtered_df scenario_def scenario_rows_def mk_row_def)

text \<open>
  C9. The filtered view keeps the relative order of the rows of the loaded table: its
  rows are the rows at the positions that pass the filter, taken in increasing position,
  hence a subsequence of the table's rows.
\<close>

theorem C9_filter_preserves_order:
  "subseq (rows (filtered_df df sj si sl)) (rows df)
   \<and> rows (filtered_df df sj si sl) =
       nths (rows df)
         {i. i < length (rows df) \<and>
             (sj = [] \<or> job_title (rows df ! i) \<in> set sj) \<and>
             (si = [] \<or> industry (rows df ! i) \<in> set si) \<and>
             (sl = [] \<or> location (rows df ! i) \<in> set sl)}"
proof
  show "subseq (rows (filtered_df df sj si sl)) (rows df)"
    by (simp add: rows_filtered_df)
  show "rows (filtered_df df sj si sl) =
       nths (rows df)
         {i. i < length (rows df) \<and>
             (sj = [] \<or> job_title (rows df ! i) \<in> set sj) \<and>
             (si = [] \<or> industry (rows df ! i) \<in> set si) \<and>
             (sl = [] \<or> location (rows df ! i) \<in> set sl)}"
    unfolding rows_filtered_df by (rule filter_eq_nths)
qed

text \<open>C9 on the scenario table with Location = {NY}: the rows at positions 0 and 2.\<close>

theorem C9_filter_preserves_order_witness:
  "subseq (rows (filtered_df scenario [] [] [Some ''NY''])) (rows scenario)
   \<and> rows (filtered_df scenario [] [] [Some ''NY'']) = [rows scenario ! 0, rows scenario ! 2]"
proof
  show "subseq (rows (filtered_df scenario [] [] [Some ''NY''])) (rows scenario)"
    using C9_filter_preserves_order [of scenario "[]" "[]" "[Some ''NY'']"] by (rule conjunct1)
  show "rows (filtered_df scenario [] [] [Some ''NY'']) = [rows scenario ! 0, rows scenario ! 2]"
    by (simp add: rows_filtered_df scenario_def scenario_rows_def mk_row_def)
qed

section \<open>Properties of the sorts and counts\<close>

lemma set_dropna: "set (dropna xs) = {x. Some x \<in> set xs}"
  by (induction xs rule: dropna.induct) auto



lemma mset_sort_desc: "mset (sort_desc f xs) = mset xs"
  by (simp add: sort_desc_def)

lemma set_sort_desc: "set (sort_desc f xs) = set xs"
  by (simp add: sort_desc_def)

lemma sorted_sort_desc: "sorted_wrt (\<lambda>a b. f b \<le> f a) (sort_desc f xs)"
proof -
  have "sorted_wrt (\<lambda>a b. f a \<le> f b) (sort_key f (rev xs))"
    using sorted_sort_key[of f "rev xs"] by (simp add: sorted_wrt_map)
  then show ?thesis by (simp add: sort_desc_def sorted_wrt_rev)
qed

text \<open>
  The descending sort is stable: where the input is ordered by a relation \<open>R\<close>, entries
  with equal keys stay ordered by \<open>R\<close>.
\<close>

lemma insort_key_tie:
  assumes "sorted_wrt (\<lambda>a b. f a < f b \<or> (f a = f b \<and> R a b)) zs" and "\<forall>z\<in>set zs. R y z"
  shows "sorted_wrt (\<lambda>a b. f a < f b \<or> (f a = f b \<and> R a b)) (insort_key f y zs)"
  using assms
proof (induction zs)
  case Nil show ?case by simp
next
  case (Cons z zs)
  show ?case
  proof (cases "f y \<le> f z")
    case True
    have "\<forall>w\<in>set (z # zs). f y < f w \<or> (f y = f w \<and> R y w)"
    proof
      fix w assume w: "w \<in> set (z # zs)"
      have "f z \<le> f w" using Cons.prems(1) w by auto
      with True have "f y \<le> f w" by simp
      moreover have "R y w" using Cons.prems(2) w by blast
      ultimately show "f y < f w \<or> (f y = f w \<and> R y w)" by auto
    qed
    with True Cons.prems(1) show ?thesis by simp
  next
    case False
    have "sorted_wrt (\<lambda>a b. f a < f b \<or> (f a = f b \<and> R a b)) (insort_key f y zs)"
      using Cons by simp
    moreover have "\<forall>w\<in>set (insort_key f y zs). f z < f w \<or> (f z = f w \<and> R z w)"
      using False Cons.prems(1) by (auto simp: set_insort_key)
    ultimately show ?thesis using False by simp
  qed
qed

lemma sort_key_tie:
  "sorted_wrt R ys \<Longrightarrow> sorted_wrt (\<lambda>a b. f a < f b \<or> (f a = f b \<and> R a b)) (sort_key f ys)"
proof (induction ys)
  case Nil show ?case by simp
next
  case (Cons y ys)
  then have "sorted_wrt (\<lambda>a b. f a < f b \<or> (f a = f b \<and> R a b)) (sort_key f ys)"
    and "\<forall>z\<in>set (sort_key f ys). R y z" by auto
  then show ?case using insort_key_tie[of f R "sort_key f ys" y] by simp
qed

lemma sort_desc_tie:
  assumes "sorted_wrt R xs"
  shows "sorted_wrt (\<lambda>a b. f b < f a \<or> (f a = f b \<and> R a b)) (sort_desc f xs)"
proof -
  have "sorted_wrt (\<lambda>a b. R b a) (rev xs)" using assms by (simp add: sorted_wrt_rev)
  then have "sorted_wrt (\<lambda>a b. f a < f b \<or> (f a = f b \<and> R b a)) (sort_key f (rev xs))"
    by (rule sort_key_tie)
  then have "sorted_wrt (\<lambda>b a. f a < f b \<or> (f a = f b \<and> R b a)) (sort_desc f xs)"
    by (simp add: sort_desc_def sorted_wrt_rev)
  then show ?thesis by (rule sorted_wrt_mono_rel[rotated]) auto
qed

lemma sorted_wrt_all: "(\<And>x y. x \<in> set xs \<Longrightarrow> y \<in> set xs \<Longrightarrow> P x y) \<Longrightarrow> sorted_wrt P xs"
  by (induction xs) auto

lemma sum_list_remove:
  fixes g :: "'a \<Rightarrow> nat"
  shows "distinct ks \<Longrightarrow>
     sum_list (map g ks) = (if x \<in> set ks then g x else 0) + sum_list (map g (filter (\<lambda>y. y \<noteq> x) ks))"
  by (induction ks) auto

lemma sum_count_unique: "sum_list (map (count_list xs) (unique xs)) = length xs"
proof (induction xs)
  case Nil show ?case by simp
next
  case (Cons x xs)
  have a: "sum_list (map (count_list (x # xs)) (filter (\<lambda>y. y \<noteq> x) (unique xs)))
        = sum_list (map (count_list xs) (filter (\<lambda>y. y \<noteq> x) (unique xs)))"
    by (rule arg_cong[where f = sum_list], rule map_cong) auto
  have b: "sum_list (map (count_list xs) (unique xs))
        = (if x \<in> set (unique xs) then count_list xs x else 0)
        + sum_list (map (count_list xs) (filter (\<lambda>y. y \<noteq> x) (unique xs)))"
    by (rule sum_list_remove) (rule distinct_unique)
  have c: "(if x \<in> set (unique xs) then count_list xs x else 0) = count_list xs x"
    by (simp add: set_unique count_list_0_iff)
  have b': "sum_list (map (count_list xs) (unique xs))
        = count_list xs x + sum_list (map (count_list xs) (filter (\<lambda>y. y \<noteq> x) (unique xs)))"
    using b unfolding c .
  have "sum_list (map (count_list (x # xs)) (unique (x # xs)))
        = count_list (x # xs) x
          + sum_list (map (count_list (x # xs)) (filter (\<lambda>y. y \<noteq> x) (unique xs)))"
    by (simp only: unique.simps list.map sum_list.Cons)
  also have "\<dots> = Suc (count_list xs x)
          + sum_list (map (count_list xs) (filter (\<lambda>y. y \<noteq> x) (unique xs)))"
    unfolding a by simp
  also have "\<dots> = Suc (length xs)"
    using Cons b' by linarith
  finally show ?case unfolding length_Cons .
qed

lemma sum_list_take_le: "sum_list (take n (ns :: nat list)) \<le> sum_list ns"
proof -
  have "sum_list ns = sum_list (take n ns) + sum_list (drop n ns)"
    by (metis append_take_drop_id sum_list_append)
  then show ?thesis by simp
qed

section \<open>Top skills\<close>

text \<open>
  The position at which a token is first encountered, and the ranking of the tokens:
  \<open>a\<close> ranks before \<open>b\<close> when it occurs more often, or equally often and is
  first encountered earlier. A token is trimmed when it neither starts nor ends with a
  white space code point.
\<close>

definition first_index :: "'a list \<Rightarrow> 'a \<Rightarrow> nat" where
  "first_index xs x = length (takeWhile (\<lambda>y. y \<noteq> x) xs)"

definition precedes :: "'a list \<Rightarrow> 'a \<Rightarrow> 'a \<Rightarrow> bool" where
  "precedes xs a b =
     (count_list xs b < count_list xs a \<or>
      (count_list xs a = count_list xs b \<and> first_index xs a < first_index xs b))"

definition trimmed :: "string \<Rightarrow> bool" where
  "trimmed t = (space_at_head t = 0 \<and> space_at_end t = 0)"

lemma split_nonempty: "split sep s \<noteq> []"
  by (induction s) (auto split: list.splits)

lemma split_no_sep: "w \<in> set (split sep s) \<Longrightarrow> sep \<notin> set w"
  by (induction s arbitrary: w) (auto split: list.splits if_splits)

lemma split_join: "join sep (split sep s) = s"
proof (induction s)
  case Nil show ?case by simp
next
  case (Cons c cs)
  obtain w ws where s: "split sep cs = w # ws" using split_nonempty[of sep cs] by (cases "split sep cs") auto
  with Cons show ?case by (cases ws) auto
qed

lemma whitespace_nonempty: "[] \<notin> set whitespace"
  by (simp add: whitespace_def)

lemma space_at_head_0_iff: "space_at_head s = 0 \<longleftrightarrow> (\<forall>w\<in>set whitespace. \<not> prefix w s)"
proof
  assume a: "space_at_head s = 0"
  show "\<forall>w\<in>set whitespace. \<not> prefix w s"
  proof (cases "filter (\<lambda>w. prefix w s) whitespace")
    case Nil then show ?thesis by (simp add: filter_empty_conv)
  next
    case (Cons w ws)
    then have "w \<in> set (filter (\<lambda>w. prefix w s) whitespace)" by simp
    then have "w \<in> set whitespace" by simp
    with whitespace_nonempty have "w \<noteq> []" by auto
    with a Cons show ?thesis by (simp add: space_at_head_def)
  qed
next
  assume "\<forall>w\<in>set whitespace. \<not> prefix w s"
  then have "filter (\<lambda>w. prefix w s) whitespace = []" by (simp add: filter_empty_conv)
  then show "space_at_head s = 0" by (simp add: space_at_head_def)
qed

lemma space_at_end_0_iff: "space_at_end s = 0 \<longleftrightarrow> (\<forall>w\<in>set whitespace. \<not> suffix w s)"
proof
  assume a: "space_at_end s = 0"
  show "\<forall>w\<in>set whitespace. \<not> suffix w s"
  proof (cases "filter (\<lambda>w. suffix w s) whitespace")
    case Nil then show ?thesis by (simp add: filter_empty_conv)
  next
    case (Cons w ws)
    then have "w \<in> set (filter (\<lambda>w. suffix w s) whitespace)" by simp
    then have "w \<in> set whitespace" by simp
    with whitespace_nonempty have "w \<noteq> []" by auto
    with a Cons show ?thesis by (simp add: space_at_end_def)
  qed
next
  assume "\<forall>w\<in>set whitespace. \<not> suffix w s"
  then have "filter (\<lambda>w. suffix w s) whitespace = []" by (simp add: filter_empty_conv)
  then show "space_at_end s = 0" by (simp add: space_at_end_def)
qed

lemma lstrip_no_head: "space_at_head (lstrip s) = 0"
proof (induction s rule: lstrip.induct)
  case (1 s)
  show ?case
  proof (cases "space_at_head s = 0")
    case True then show ?thesis by (subst lstrip.simps) simp
  next
    case False with 1 show ?thesis by (subst lstrip.simps) simp
  qed
qed

lemma rstrip_no_end: "space_at_end (rstrip s) = 0"
proof (induction s rule: rstrip.induct)
  case (1 s)
  show ?case
  proof (cases "space_at_end s = 0")
    case True then show ?thesis by (subst rstrip.simps) simp
  next
    case False with 1 show ?thesis by (subst rstrip.simps) simp
  qed
qed

lemma rstrip_prefix: "prefix (rstrip s) s"
proof (induction s rule: rstrip.induct)
  case (1 s)
  show ?case
  proof (cases "space_at_end s = 0")
    case True then show ?thesis by (subst rstrip.simps) simp
  next
    case False
    with 1 have "prefix (rstrip (take (length s - space_at_end s) s)) (take (length s - space_at_end s) s)"
      by simp
    moreover have "prefix (take (length s - space_at_end s) s) s" by (rule take_is_prefix)
    ultimately have "prefix (rstrip (take (length s - space_at_end s) s)) s" by (rule prefix_order.trans)
    with False show ?thesis by (subst rstrip.simps) simp
  qed
qed

lemma lstrip_suffix: "suffix (lstrip s) s"
proof (induction s rule: lstrip.induct)
  case (1 s)
  show ?case
  proof (cases "space_at_head s = 0")
    case True then show ?thesis by (subst lstrip.simps) simp
  next
    case False
    with 1 have "suffix (lstrip (drop (space_at_head s) s)) (drop (space_at_head s) s)"
      by simp
    moreover have "suffix (drop (space_at_head s) s) s" by (rule suffix_drop)
    ultimately have "suffix (lstrip (drop (space_at_head s) s)) s" by (rule suffix_order.trans)
    with False show ?thesis by (subst lstrip.simps) simp
  qed
qed

lemma space_at_head_rstrip: "space_at_head s = 0 \<Longrightarrow> space_at_head (rstrip s) = 0"
  unfolding space_at_head_0_iff using rstrip_prefix[of s] prefix_order.trans by blast

lemma trimmed_strip: "trimmed (strip s)"
  by (simp add: trimmed_def strip_def rstrip_no_end space_at_head_rstrip lstrip_no_head)

lemma strip_infix: "sublist (strip s) s"
  unfolding strip_def
  using rstrip_prefix[of "lstrip s"] lstrip_suffix[of s]
  by (meson prefix_imp_sublist suffix_imp_sublist sublist_order.order.trans)

lemma space_at_head_take:
  assumes "space_at_head s \<noteq> 0"
  shows "take (space_at_head s) s \<in> set whitespace"
proof (cases "filter (\<lambda>w. prefix w s) whitespace")
  case Nil with assms show ?thesis by (simp add: space_at_head_def)
next
  case (Cons w ws)
  then have "w \<in> set (filter (\<lambda>w. prefix w s) whitespace)" by simp
  then have w: "w \<in> set whitespace" and p: "prefix w s" by simp_all
  from p have "take (length w) s = w" by (auto simp: prefix_def)
  with Cons w show ?thesis by (simp add: space_at_head_def)
qed

lemma space_at_end_drop:
  assumes "space_at_end s \<noteq> 0"
  shows "drop (length s - space_at_end s) s \<in> set whitespace"
proof (cases "filter (\<lambda>w. suffix w s) whitespace")
  case Nil with assms show ?thesis by (simp add: space_at_end_def)
next
  case (Cons w ws)
  then have "w \<in> set (filter (\<lambda>w. suffix w s) whitespace)" by simp
  then have w: "w \<in> set whitespace" and p: "suffix w s" by simp_all
  from p have "drop (length s - length w) s = w" by (auto simp: suffix_def)
  with Cons w show ?thesis by (simp add: space_at_end_def)
qed

lemma lstrip_decomp: "\<exists>a. set a \<subseteq> set whitespace \<and> s = concat a @ lstrip s"
proof (induction s rule: lstrip.induct)
  case (1 s)
  show ?case
  proof (cases "space_at_head s = 0")
    case True
    then have "lstrip s = s" by (subst lstrip.simps) simp
    then have "set [] \<subseteq> set whitespace \<and> s = concat [] @ lstrip s" by simp
    then show ?thesis by blast
  next
    case False
    let ?n = "space_at_head s"
    from 1 False obtain a where a: "set a \<subseteq> set whitespace"
      and d: "drop ?n s = concat a @ lstrip (drop ?n s)" by blast
    have l: "lstrip s = lstrip (drop ?n s)" using False by (subst lstrip.simps) simp
    have "s = take ?n s @ drop ?n s" by simp
    also have "\<dots> = concat (take ?n s # a) @ lstrip s" using d l by simp
    finally have "s = concat (take ?n s # a) @ lstrip s" .
    moreover have "set (take ?n s # a) \<subseteq> set whitespace"
      using a space_at_head_take[OF False] by simp
    ultimately show ?thesis by blast
  qed
qed

lemma rstrip_decomp: "\<exists>b. set b \<subseteq> set whitespace \<and> s = rstrip s @ concat b"
proof (induction s rule: rstrip.induct)
  case (1 s)
  show ?case
  proof (cases "space_at_end s = 0")
    case True
    then have "rstrip s = s" by (subst rstrip.simps) simp
    then have "set [] \<subseteq> set whitespace \<and> s = rstrip s @ concat []" by simp
    then show ?thesis by blast
  next
    case False
    let ?n = "length s - space_at_end s"
    from 1 False obtain b where b: "set b \<subseteq> set whitespace"
      and d: "take ?n s = rstrip (take ?n s) @ concat b" by blast
    have l: "rstrip s = rstrip (take ?n s)" using False by (subst rstrip.simps) simp
    have "s = take ?n s @ drop ?n s" by simp
    also have "\<dots> = (rstrip (take ?n s) @ concat b) @ drop ?n s" using d by (rule arg_cong)
    also have "\<dots> = rstrip s @ concat (b @ [drop ?n s])" by (simp add: l)
    finally have "s = rstrip s @ concat (b @ [drop ?n s])" .
    moreover have "set (b @ [drop ?n s]) \<subseteq> set whitespace"
      using b space_at_end_drop[OF False] by simp
    ultimately show ?thesis by blast
  qed
qed

text \<open>\<^verbatim>\<open>strip\<close> removes white space code points at the two ends, and nothing else.\<close>

lemma strip_decomp:
  "\<exists>a b. set a \<subseteq> set whitespace \<and> set b \<subseteq> set whitespace \<and> s = concat a @ strip s @ concat b"
proof -
  obtain a where a: "set a \<subseteq> set whitespace" "s = concat a @ lstrip s"
    using lstrip_decomp[of s] by blast
  obtain b where b: "set b \<subseteq> set whitespace" "lstrip s = rstrip (lstrip s) @ concat b"
    using rstrip_decomp[of "lstrip s"] by blast
  have "s = concat a @ strip s @ concat b" using a(2) b(2) by (simp add: strip_def)
  with a(1) b(1) show ?thesis by blast
qed

lemma keys_counter_add:
  "map fst (counter_add c k) = (if k \<in> fst ` set c then map fst c else map fst c @ [k])"
  by (induction c k rule: counter_add.induct) auto

lemma map_of_counter_add:
  "map_of (counter_add c k) k' =
     (if k' = k then Some (case map_of c k of None \<Rightarrow> 1 | Some n \<Rightarrow> n + 1) else map_of c k')"
  by (induction c k rule: counter_add.induct) auto

lemma keys_foldl_counter_add:
  "map fst (foldl counter_add c xs) = map fst c @ unique (filter (\<lambda>x. x \<notin> fst ` set c) xs)"
proof (induction xs arbitrary: c)
  case Nil show ?case by simp
next
  case (Cons x xs)
  show ?case
  proof (cases "x \<in> fst ` set c")
    case True
    then have "fst ` set (counter_add c x) = fst ` set c"
      using keys_counter_add[of c x] by (metis list.set_map)
    with True Cons[of "counter_add c x"] show ?thesis by (simp add: keys_counter_add)
  next
    case False
    then have k: "map fst (counter_add c x) = map fst c @ [x]" by (simp add: keys_counter_add)
    then have s: "fst ` set (counter_add c x) = insert x (fst ` set c)"
      by (metis list.set_map set_append list.simps(15) Un_insert_right sup_bot.right_neutral empty_set)
    have "filter (\<lambda>y. y \<notin> insert x (fst ` set c)) xs = filter (\<lambda>y. y \<noteq> x) (filter (\<lambda>y. y \<notin> fst ` set c) xs)"
      by (auto intro: filter_cong)
    with False Cons[of "counter_add c x"] k s show ?thesis by (simp add: unique_filter conj_commute)
  qed
qed

lemma map_of_foldl_counter_add:
  "map_of (foldl counter_add c xs) k =
     (if k \<in> fst ` set c \<union> set xs
      then Some (count_list xs k + (case map_of c k of None \<Rightarrow> 0 | Some n \<Rightarrow> n))
      else None)"
proof (induction xs arbitrary: c)
  case Nil show ?case by (auto simp: map_of_eq_None_iff split: option.splits)
next
  case (Cons x xs)
  have s: "fst ` set (counter_add c x) = insert x (fst ` set c)"
    using keys_counter_add[of c x] by (metis (no_types, lifting) list.set_map set_append list.simps(15) Un_insert_right sup_bot.right_neutral empty_set insert_absorb)
  show ?case
    using Cons[of "counter_add c x"] by (auto simp: s map_of_counter_add split: option.splits)
qed

lemma assoc_by_keys:
  "distinct (map fst ps) \<Longrightarrow> ps = map (\<lambda>k. (k, the (map_of ps k))) (map fst ps)"
proof (induction ps)
  case Nil show ?case by simp
next
  case (Cons p ps)
  obtain a b where p: "p = (a, b)" by (cases p)
  from Cons.prems p have a: "a \<notin> set (map fst ps)" and d: "distinct (map fst ps)" by auto
  have "map (\<lambda>k. (k, the (map_of (p # ps) k))) (map fst ps) = map (\<lambda>k. (k, the (map_of ps k))) (map fst ps)"
  proof (rule map_cong[OF refl])
    fix k assume "k \<in> set (map fst ps)"
    with a have "k \<noteq> a" by auto
    then show "(k, the (map_of (p # ps) k)) = (k, the (map_of ps k))" by (simp add: p)
  qed
  also have "\<dots> = ps" using Cons.IH[OF d] by simp
  finally show ?case by (simp add: p)
qed

text \<open>The counter lists every distinct token once, in first-encountered order, with its count.\<close>

lemma Counter_eq: "Counter xs = map (\<lambda>k. (k, count_list xs k)) (unique xs)"
proof -
  have k: "map fst (Counter xs) = unique xs"
    by (simp add: Counter_def keys_foldl_counter_add)
  have "Counter xs = map (\<lambda>k. (k, the (map_of (Counter xs) k))) (map fst (Counter xs))"
    by (rule assoc_by_keys) (simp add: k distinct_unique)
  also have "\<dots> = map (\<lambda>k. (k, count_list xs k)) (unique xs)"
    unfolding k by (rule map_cong) (auto simp: Counter_def map_of_foldl_counter_add set_unique)
  finally show ?thesis .
qed

lemma first_index_Cons: "first_index (x # xs) y = (if y = x then 0 else Suc (first_index xs y))"
  by (simp add: first_index_def)

lemma sorted_first_index_unique:
  "sorted_wrt (\<lambda>a b. first_index xs a < first_index xs b) (unique xs)"
proof (induction xs)
  case Nil show ?case by simp
next
  case (Cons x xs)
  have "sorted_wrt (\<lambda>a b. first_index xs a < first_index xs b) (filter (\<lambda>y. y \<noteq> x) (unique xs))"
    using Cons by (rule sorted_wrt_filter)
  then have "sorted_wrt (\<lambda>a b. first_index (x # xs) a < first_index (x # xs) b)
               (filter (\<lambda>y. y \<noteq> x) (unique xs))"
    by (rule sorted_wrt_mono_rel[rotated]) (auto simp: first_index_Cons)
  then show ?case by (auto simp: first_index_Cons)
qed

lemma top_items_precedes: "sorted_wrt (precedes T) (map fst (sort_desc snd (Counter T)))"
proof -
  let ?items = "map (\<lambda>k. (k, count_list T k)) (unique T)"
  let ?R = "\<lambda>a b. first_index T (fst a) < first_index T (fst b)"
  let ?L = "sort_desc snd ?items"
  have "sorted_wrt ?R ?items"
    using sorted_first_index_unique[of T] by (simp add: sorted_wrt_map)
  then have S: "sorted_wrt (\<lambda>a b. snd b < snd a \<or> (snd a = snd b \<and> ?R a b)) ?L"
    by (rule sort_desc_tie)
  have c: "\<And>a. a \<in> set ?L \<Longrightarrow> snd a = count_list T (fst a)"
    by (auto simp: set_sort_desc)
  have "sorted_wrt (\<lambda>a b. precedes T (fst a) (fst b)) ?L"
  proof (rule sorted_wrt_mono_rel[OF _ S])
    fix a b
    assume a: "a \<in> set ?L" and b: "b \<in> set ?L"
      and r: "snd b < snd a \<or> (snd a = snd b \<and> ?R a b)"
    from r show "precedes T (fst a) (fst b)"
      unfolding precedes_def c[OF a] c[OF b] .
  qed
  then show ?thesis by (simp add: Counter_eq sorted_wrt_map)
qed

lemma keys_top_items: "mset (map fst (sort_desc snd (Counter T))) = mset (unique T)"
proof -
  have "mset (map fst (sort_desc snd (Counter T))) = image_mset fst (mset (sort_desc snd (Counter T)))"
    by simp
  also have "\<dots> = image_mset fst (mset (Counter T))" by (simp only: mset_sort_desc)
  also have "\<dots> = mset (unique T)" by (simp add: Counter_eq image_mset.compositionality o_def)
  finally show ?thesis .
qed

lemma sum_top_items: "sum_list (map snd (sort_desc snd (Counter T))) = length T"
proof -
  have "mset (map snd (sort_desc snd (Counter T))) = mset (map snd (Counter T))"
    by (simp add: mset_sort_desc)
  then have "sum_list (map snd (sort_desc snd (Counter T))) = sum_list (map snd (Counter T))"
    by (metis sum_mset_sum_list)
  also have "\<dots> = length T" using sum_count_unique[of T] by (simp add: Counter_eq o_def)
  finally show ?thesis .
qed

lemma top_skills_eq: "top_skills v = take 10 (sort_desc snd (Counter (all_skills v)))"
  by (simp add: top_skills_def most_common_def)

lemma all_skills_trimmed: "list_all trimmed (all_skills v)"
  by (auto simp: all_skills_def skills_series_def list_all_iff trimmed_strip)

lemma top_skills_length: "length (top_skills v) \<le> 10"
  by (simp add: top_skills_eq)

lemma top_skills_distinct: "distinct (map fst (top_skills v))"
proof -
  have "distinct (map fst (sort_desc snd (Counter (all_skills v))))"
    using keys_top_items[of "all_skills v"] distinct_unique[of "all_skills v"]
    by (metis mset_eq_imp_distinct_iff)
  then show ?thesis by (simp add: top_skills_eq take_map[symmetric] distinct_take)
qed

lemma top_skills_entries:
  "(t, c) \<in> set (top_skills v) \<Longrightarrow> t \<in> set (all_skills v) \<and> c = count_list (all_skills v) t"
proof -
  assume "(t, c) \<in> set (top_skills v)"
  then have "(t, c) \<in> set (sort_desc snd (Counter (all_skills v)))"
    unfolding top_skills_eq by (rule in_set_takeD)
  then show ?thesis by (auto simp: set_sort_desc Counter_eq set_unique)
qed

lemma top_skills_sorted: "sorted_wrt (precedes (all_skills v)) (map fst (top_skills v))"
  using top_items_precedes[of "all_skills v"]
  by (simp add: top_skills_eq take_map[symmetric] sorted_wrt_take)

lemma top_skills_rest:
  assumes "t \<in> set (all_skills v)" and "t \<notin> fst ` set (top_skills v)"
  shows "length (top_skills v) = 10 \<and> (\<forall>u\<in>fst ` set (top_skills v). precedes (all_skills v) u t)"
proof -
  let ?L = "map fst (sort_desc snd (Counter (all_skills v)))"
  have top: "map fst (top_skills v) = take 10 ?L" by (simp add: top_skills_eq take_map)
  have "t \<in> set ?L"
    using keys_top_items[of "all_skills v"] assms(1) by (metis set_mset_mset set_unique)
  moreover have "t \<notin> set (take 10 ?L)" using assms(2) top by (metis list.set_map)
  ultimately have d: "t \<in> set (drop 10 ?L)"
    by (metis Un_iff append_take_drop_id set_append)
  then have "10 < length ?L" by (cases "10 < length ?L") auto
  then have len: "length (top_skills v) = 10" by (simp add: top_skills_eq)
  have "sorted_wrt (precedes (all_skills v)) (take 10 ?L @ drop 10 ?L)"
    using top_items_precedes[of "all_skills v"] by simp
  then have "\<forall>u\<in>set (take 10 ?L). precedes (all_skills v) u t"
    using d unfolding sorted_wrt_append by blast
  then show ?thesis using len top by (metis list.set_map)
qed

lemma top_skills_sum: "sum_list (map snd (top_skills v)) \<le> length (all_skills v)"
proof -
  have "sum_list (map snd (top_skills v)) = sum_list (take 10 (map snd (sort_desc snd (Counter (all_skills v)))))"
    by (simp add: top_skills_eq take_map)
  also have "\<dots> \<le> sum_list (map snd (sort_desc snd (Counter (all_skills v))))"
    by (rule sum_list_take_le)
  also have "\<dots> = length (all_skills v)" by (rule sum_top_items)
  finally show ?thesis .
qed

text \<open>
  C2. The token stream is the concatenation, over the rows with a Skills field, of the
  trimmed comma-separated pieces of that field; trimming takes white space off the two
  ends of a piece and nothing else, and every token is free of leading and trailing
  white space. The top-skills aggregate has at most 10 entries, no token twice;
  each entry is a token of the stream with the number of its occurrences; the entries are
  ranked by descending count, equal counts in first-encountered order; every token of
  the stream that is left out ranks after all ten entries; and the counts returned sum
  to at most the number of tokens of the stream.
\<close>

theorem C2_top_skills:
  "all_skills v = concat (map (\<lambda>x. map strip (split CHR '','' x)) (dropna (map skills (rows v))))
   \<and> (\<forall>s. \<exists>a b. set a \<subseteq> set whitespace \<and> set b \<subseteq> set whitespace \<and>
             s = concat a @ strip s @ concat b)
   \<and> list_all trimmed (all_skills v)
   \<and> length (top_skills v) \<le> 10
   \<and> distinct (map fst (top_skills v))
   \<and> (\<forall>(t, c)\<in>set (top_skills v). t \<in> set (all_skills v) \<and> c = count_list (all_skills v) t)
   \<and> sorted_wrt (precedes (all_skills v)) (map fst (top_skills v))
   \<and> (\<forall>t\<in>set (all_skills v). t \<notin> fst ` set (top_skills v) \<longrightarrow>
         length (top_skills v) = 10 \<and>
         (\<forall>u\<in>fst ` set (top_skills v). precedes (all_skills v) u t))
   \<and> sum_list (map snd (top_skills v)) \<le> length (all_skills v)"
proof (intro conjI)
  show "all_skills v = concat (map (\<lambda>x. map strip (split CHR '','' x)) (dropna (map skills (rows v))))"
    by (simp add: all_skills_def skills_series_def)
  show "\<forall>s. \<exists>a b. set a \<subseteq> set whitespace \<and> set b \<subseteq> set whitespace \<and>
             s = concat a @ strip s @ concat b"
    using strip_decomp by blast
  show "\<forall>(t, c)\<in>set (top_skills v). t \<in> set (all_skills v) \<and> c = count_list (all_skills v) t"
    using top_skills_entries by blast
  show "\<forall>t\<in>set (all_skills v). t \<notin> fst ` set (top_skills v) \<longrightarrow>
         length (top_skills v) = 10 \<and>
         (\<forall>u\<in>fst ` set (top_skills v). precedes (all_skills v) u t)"
    using top_skills_rest by blast
qed (rule all_skills_trimmed top_skills_length top_skills_distinct top_skills_sorted top_skills_sum)+

text \<open>
  C2 on a table with eleven distinct skills: \<open>b\<close> occurs twice and comes first, the
  others follow in first-encountered order, and \<open>k\<close>, encountered last, is left out.
  On the scenario table the aggregate is [(Python, 2), (SQL, 2)], in first-seen order.
\<close>

theorem C2_top_skills_witness:
  "all_skills skills_table =
     [''a'', ''b'', ''c'', ''d'', ''e'', ''f'', ''g'', ''h'', ''i'', ''j'', ''k'', ''b'']
   \<and> top_skills skills_table =
     [(''b'', 2), (''a'', 1), (''c'', 1), (''d'', 1), (''e'', 1), (''f'', 1), (''g'', 1),
      (''h'', 1), (''i'', 1), (''j'', 1)]
   \<and> ''k'' \<in> set (all_skills skills_table)
   \<and> ''k'' \<notin> fst ` set (top_skills skills_table)
   \<and> length (top_skills skills_table) = 10
   \<and> precedes (all_skills skills_table) ''j'' ''k''
   \<and> sum_list (map snd (top_skills skills_table)) \<le> length (all_skills skills_table)
   \<and> top_skills scenario = [(''Python'', 2), (''SQL'', 2)]"
proof -
  have s: "top_skills scenario = [(''Python'', 2), (''SQL'', 2)]"
    by code_simp
  have a: "all_skills skills_table =
     [''a'', ''b'', ''c'', ''d'', ''e'', ''f'', ''g'', ''h'', ''i'', ''j'', ''k'', ''b'']"
    by code_simp
  have t: "top_skills skills_table =
     [(''b'', 2), (''a'', 1), (''c'', 1), (''d'', 1), (''e'', 1), (''f'', 1), (''g'', 1),
      (''h'', 1), (''i'', 1), (''j'', 1)]"
    by code_simp
  have k: "''k'' \<in> set (all_skills skills_table)" "''k'' \<notin> fst ` set (top_skills skills_table)"
    "''j'' \<in> fst ` set (top_skills skills_table)"
    unfolding a t by simp_all
  from C2_top_skills [of skills_table] k
  have "length (top_skills skills_table) = 10 \<and> precedes (all_skills skills_table) ''j'' ''k''"
    by blast
  moreover from C2_top_skills [of skills_table]
  have "sum_list (map snd (top_skills skills_table)) \<le> length (all_skills skills_table)"
    by blast
  ultimately show ?thesis using a t k s by blast
qed

section \<open>Mean salary by job title and jobs by location\<close>

text \<open>
  The order of a descending series: a missing mean comes after every number.
\<close>

fun ge_na_last :: "rat option \<Rightarrow> rat option \<Rightarrow> bool" where
  "ge_na_last _ None = True"
| "ge_na_last None (Some b) = False"
| "ge_na_last (Some a) (Some b) = (b \<le> a)"

lemma set_group_keys: "set (group_keys ks) = {k. Some k \<in> set ks}"
  by (simp add: group_keys_def set_unique set_dropna)

lemma distinct_group_keys: "distinct (group_keys ks)"
  by (simp add: group_keys_def distinct_unique)

lemma mset_notna:
  "mset (map (\<lambda>(k, x). (k, Some x)) (notna s)) + mset (filter (\<lambda>(k, v). v = None) s) = mset s"
  by (induction s rule: notna.induct) auto

lemma mset_sort_values_desc: "mset (sort_values_desc s) = mset s"
proof -
  have "mset (map (\<lambda>(k, x). (k, Some x)) (sort_desc snd (notna s)))
      = mset (map (\<lambda>(k, x). (k, Some x)) (notna s))"
    by (simp add: mset_sort_desc)
  then show ?thesis using mset_notna[of s] by (simp add: sort_values_desc_def)
qed

lemma sorted_sort_values_desc: "sorted_wrt ge_na_last (map snd (sort_values_desc s))"
proof -
  let ?A = "map (\<lambda>(k, x). (k, Some x)) (sort_desc snd (notna s))"
  let ?B = "filter (\<lambda>(k, v). v = None) s"
  have "sorted_wrt (\<lambda>a b. snd b \<le> snd a) (sort_desc snd (notna s))" by (rule sorted_sort_desc)
  then have a: "sorted_wrt ge_na_last (map snd ?A)"
    by (simp add: sorted_wrt_map case_prod_beta)
  have bn: "\<forall>y\<in>set (map snd ?B). y = None" by auto
  have b: "sorted_wrt ge_na_last (map snd ?B)"
  proof (rule sorted_wrt_all)
    fix x y assume "y \<in> set (map snd ?B)"
    with bn have "y = None" by blast
    then show "ge_na_last x y" by simp
  qed
  have "\<forall>x\<in>set (map snd ?A). \<forall>y\<in>set (map snd ?B). ge_na_last x y" using bn by simp
  with a b show ?thesis by (simp add: sort_values_desc_def sorted_wrt_append)
qed

lemma avg_salary_keys:
  "mset (map fst (avg_salary_by_job v)) = mset (group_keys (map job_title (rows v)))"
proof -
  have "mset (map fst (avg_salary_by_job v)) = image_mset fst (mset (avg_salary_by_job v))" by simp
  also have "\<dots> = image_mset fst (mset (groupby_mean job_title salary (rows v)))"
    by (simp only: avg_salary_by_job_def mset_sort_values_desc)
  also have "\<dots> = mset (group_keys (map job_title (rows v)))"
    by (simp add: groupby_mean_def image_mset.compositionality o_def)
  finally show ?thesis .
qed

lemma avg_salary_distinct: "distinct (map fst (avg_salary_by_job v))"
  using avg_salary_keys[of v] distinct_group_keys by (metis mset_eq_imp_distinct_iff)

lemma avg_salary_set: "set (map fst (avg_salary_by_job v)) = {j. Some j \<in> job_title ` set (rows v)}"
proof -
  have "set (map fst (avg_salary_by_job v)) = set (group_keys (map job_title (rows v)))"
    using avg_salary_keys[of v] by (metis set_mset_mset)
  then show ?thesis by (simp add: set_group_keys)
qed

lemma avg_salary_entries:
  assumes "(j, m) \<in> set (avg_salary_by_job v)"
  shows "m = mean (map salary (filter (\<lambda>r. job_title r = Some j) (rows v)))"
proof -
  have "set (avg_salary_by_job v) = set (groupby_mean job_title salary (rows v))"
    using mset_sort_values_desc[of "groupby_mean job_title salary (rows v)"]
    by (metis avg_salary_by_job_def set_mset_mset)
  with assms show ?thesis by (auto simp: groupby_mean_def)
qed

text \<open>
  C3. The mean-salary aggregate has exactly one entry per distinct Job Title of the
  view; the entry of a job title carries the arithmetic mean of the salaries of the rows
  with that job title (sum over count of the salaries present, missing when none is);
  the entries are in descending order of mean, equal means in either order and a
  missing mean last. On the three-row scenario table with no filter the aggregate is
  [(Data Scientist, 110000), (Analyst, 70000)].
\<close>

theorem C3_avg_salary_by_job:
  "distinct (map fst (avg_salary_by_job v))
   \<and> set (map fst (avg_salary_by_job v)) = {j. Some j \<in> job_title ` set (rows v)}
   \<and> (\<forall>(j, m)\<in>set (avg_salary_by_job v).
        m = (let xs = dropna (map salary (filter (\<lambda>r. job_title r = Some j) (rows v)))
             in if xs = [] then None else Some (sum_list xs / of_nat (length xs))))
   \<and> sorted_wrt ge_na_last (map snd (avg_salary_by_job v))
   \<and> avg_salary_by_job (filtered_df scenario [] [] []) =
        [(''Data Scientist'', Some 110000), (''Analyst'', Some 70000)]"
proof (intro conjI)
  show "\<forall>(j, m)\<in>set (avg_salary_by_job v).
        m = (let xs = dropna (map salary (filter (\<lambda>r. job_title r = Some j) (rows v)))
             in if xs = [] then None else Some (sum_list xs / of_nat (length xs)))"
    using avg_salary_entries[of _ _ v] unfolding mean_def by blast
  show "sorted_wrt ge_na_last (map snd (avg_salary_by_job v))"
    unfolding avg_salary_by_job_def by (rule sorted_sort_values_desc)
  show "avg_salary_by_job (filtered_df scenario [] [] []) =
        [(''Data Scientist'', Some 110000), (''Analyst'', Some 70000)]"
    by code_simp
qed (rule avg_salary_distinct avg_salary_set)+

text \<open>
  C3 on the scenario table filtered to Location = {NY}: the Data Scientist group has the
  single salary 100000, the Analyst group 70000.
\<close>

theorem C3_avg_salary_by_job_witness:
  "avg_salary_by_job (filtered_df scenario [] [] [Some ''NY'']) =
     [(''Data Scientist'', Some 100000), (''Analyst'', Some 70000)]
   \<and> dropna (map salary (filter (\<lambda>r. job_title r = Some ''Analyst'')
        (rows (filtered_df scenario [] [] [Some ''NY''])))) = [70000]
   \<and> ge_na_last (Some 100000) (Some 70000)"
proof -
  have e: "avg_salary_by_job (filtered_df scenario [] [] [Some ''NY'']) =
     [(''Data Scientist'', Some 100000), (''Analyst'', Some 70000)]"
    by code_simp
  have d: "dropna (map salary (filter (\<lambda>r. job_title r = Some ''Analyst'')
        (rows (filtered_df scenario [] [] [Some ''NY''])))) = [70000]"
    by (simp add: rows_filtered_df scenario_def scenario_rows_def mk_row_def)
  from C3_avg_salary_by_job [of "filtered_df scenario [] [] [Some ''NY'']"]
  have "sorted_wrt ge_na_last (map snd (avg_salary_by_job (filtered_df scenario [] [] [Some ''NY''])))"
    by blast
  then have "ge_na_last (Some 100000) (Some 70000)" unfolding e by simp
  with e d show ?thesis by blast
qed





section \<open>Monthly trend\<close>

text \<open>
  The month (counted from year 0) of a row's Date when the Date parses, the months
  present among the parsed dates of a view, and the chronological order of months.
  \<open>set_dates\<close> replaces the Date cell of every row.
\<close>

definition row_month_index :: "date_parser \<Rightarrow> row list \<Rightarrow> row \<Rightarrow> int option" where
  "row_month_index parse rs r =
     (case date r of None \<Rightarrow> None | Some s \<Rightarrow> map_option month_index (parse (map date rs) s))"

definition months_present :: "date_parser \<Rightarrow> row list \<Rightarrow> (int \<times> nat) list" where
  "months_present parse rs = map month_label (dropna (map (row_month_index parse rs) rs))"

fun chron :: "int \<times> nat \<Rightarrow> int \<times> nat \<Rightarrow> bool" where
  "chron (y1, m1) (y2, m2) = (y1 < y2 \<or> (y1 = y2 \<and> m1 < m2))"

definition set_dates :: "(row \<Rightarrow> string option) \<Rightarrow> table \<Rightarrow> table" where
  "set_dates d v = v\<lparr>rows := map (\<lambda>r. r\<lparr>date := d r\<rparr>) (rows v)\<rparr>"

lemma stamped_indices:
  "map (\<lambda>d. month_index (fst d))
     (dropna_date (zip (map (\<lambda>c. case c of None \<Rightarrow> None | Some s \<Rightarrow> parse col s) (map date rs)) (map salary rs)))
   = dropna (map (\<lambda>r. case date r of None \<Rightarrow> None | Some s \<Rightarrow> map_option month_index (parse col s)) rs)"
proof (induction rs)
  case Nil show ?case by simp
next
  case (Cons r rs)
  show ?case
  proof (cases "date r")
    case None with Cons show ?thesis by simp
  next
    case (Some s) with Cons show ?thesis by (cases "parse col s") simp_all
  qed
qed

lemma stamped_group:
  "map snd (filter (\<lambda>d. month_index (fst d) = m)
     (dropna_date (zip (map (\<lambda>c. case c of None \<Rightarrow> None | Some s \<Rightarrow> parse col s) (map date rs)) (map salary rs))))
   = map salary (filter (\<lambda>r. (case date r of None \<Rightarrow> None | Some s \<Rightarrow> map_option month_index (parse col s)) = Some m) rs)"
proof (induction rs)
  case Nil show ?case by simp
next
  case (Cons r rs)
  show ?case
  proof (cases "date r")
    case None with Cons show ?thesis by simp
  next
    case (Some s) with Cons show ?thesis by (cases "parse col s") simp_all
  qed
qed

lemma foldl_min: "foldl min (k::int) ks = Min (set (k # ks))"
proof -
  have "(\<lambda>x s. min s x) = (min :: int \<Rightarrow> int \<Rightarrow> int)" by (intro ext) (rule min.commute)
  then have "foldl min k ks = fold min ks k" by (simp add: foldl_conv_fold)
  then show ?thesis by (simp only: Min.set_eq_fold)
qed

lemma foldl_max: "foldl max (k::int) ks = Max (set (k # ks))"
proof -
  have "(\<lambda>x s. max s x) = (max :: int \<Rightarrow> int \<Rightarrow> int)" by (intro ext) (rule max.commute)
  then have "foldl max k ks = fold max ks k" by (simp add: foldl_conv_fold)
  then show ?thesis by (simp only: Max.set_eq_fold)
qed

lemma monthly_trend_eq:
  "monthly_trend parse rs =
     (let K = dropna (map (row_month_index parse rs) rs)
      in if K = [] then []
         else map (\<lambda>m. (month_label m, mean (map salary (filter (\<lambda>r. row_month_index parse rs r = Some m) rs))))
                [Min (set K) .. Max (set K)])"
proof -
  let ?ds = "dropna_date (zip (to_datetime parse (map date rs)) (map salary rs))"
  let ?K = "dropna (map (row_month_index parse rs) rs)"
  have K: "map (\<lambda>d. month_index (fst d)) ?ds = ?K"
    unfolding to_datetime_def row_month_index_def by (rule stamped_indices)
  have G: "\<And>m. map snd (filter (\<lambda>d. month_index (fst d) = m) ?ds)
             = map salary (filter (\<lambda>r. row_month_index parse rs r = Some m) rs)"
    unfolding to_datetime_def row_month_index_def by (rule stamped_group)
  show ?thesis
  proof (cases ?K)
    case Nil
    with K show ?thesis by (simp add: monthly_trend_def grouper_mean_def)
  next
    case (Cons k ks)
    have "monthly_trend parse rs =
        map (\<lambda>m. (month_label m, mean (map snd (filter (\<lambda>d. month_index (fst d) = m) ?ds))))
            [foldl min k ks .. foldl max k ks]"
      using K Cons by (simp add: monthly_trend_def grouper_mean_def)
    then show ?thesis using Cons by (simp add: G foldl_min foldl_max)
  qed
qed

lemma month_label_mono: "k < k' \<Longrightarrow> chron (month_label k) (month_label k')"
proof -
  assume "k < k'"
  then have "k div 12 < k' div 12 \<or> (k div 12 = k' div 12 \<and> k mod 12 < k' mod 12)"
    by presburger
  moreover have "0 \<le> k mod 12" "0 \<le> k' mod 12" by simp_all
  ultimately show ?thesis by (auto simp: month_label_def)
qed

lemma month_label_inj: "month_label k = month_label k' \<Longrightarrow> k = k'"
proof -
  assume "month_label k = month_label k'"
  then have "k div 12 = k' div 12" and "nat (k mod 12) = nat (k' mod 12)"
    by (simp_all add: month_label_def)
  moreover have "0 \<le> k mod 12" "0 \<le> k' mod 12" by simp_all
  ultimately have "k div 12 = k' div 12" and "k mod 12 = k' mod 12" by linarith+
  then show ?thesis by (metis mult_div_mod_eq)
qed

lemma sorted_month_labels: "sorted_wrt chron (map month_label [i..j])"
proof -
  have "sorted_wrt (<) [i..j]" by (rule sorted_wrt_upto)
  then show ?thesis unfolding sorted_wrt_map by (rule sorted_wrt_mono_rel[rotated]) (rule month_label_mono)
qed

lemma monthly_trend_months:
  "map fst (monthly_trend parse rs) =
     (let K = dropna (map (row_month_index parse rs) rs)
      in if K = [] then [] else map month_label [Min (set K) .. Max (set K)])"
  by (simp add: monthly_trend_eq Let_def o_def)

lemma monthly_trend_sorted: "sorted_wrt chron (map fst (monthly_trend parse rs))"
  by (simp add: monthly_trend_months Let_def sorted_month_labels)

lemma monthly_trend_entries:
  assumes "(m, x) \<in> set (monthly_trend parse rs)"
  shows "x = mean (map salary
           (filter (\<lambda>r. map_option month_label (row_month_index parse rs r) = Some m) rs))"
proof -
  from assms obtain k where m: "m = month_label k"
    and x: "x = mean (map salary (filter (\<lambda>r. row_month_index parse rs r = Some k) rs))"
    by (auto simp: monthly_trend_eq Let_def split: if_splits)
  have "\<And>r. (map_option month_label (row_month_index parse rs r) = Some m)
            = (row_month_index parse rs r = Some k)"
    unfolding m by (auto dest: month_label_inj)
  with x show ?thesis by simp
qed

lemma months_present_covered:
  "set (months_present parse rs) \<subseteq> set (map fst (monthly_trend parse rs))"
proof
  fix m assume "m \<in> set (months_present parse rs)"
  then obtain k where k: "k \<in> set (dropna (map (row_month_index parse rs) rs))" and m: "m = month_label k"
    by (auto simp: months_present_def)
  let ?K = "dropna (map (row_month_index parse rs) rs)"
  from k have ne: "?K \<noteq> []" by auto
  have "Min (set ?K) \<le> k" "k \<le> Max (set ?K)" using k by simp_all
  then have "k \<in> set [Min (set ?K) .. Max (set ?K)]" by simp
  then show "m \<in> set (map fst (monthly_trend parse rs))"
    unfolding monthly_trend_months Let_def using ne m by auto
qed

lemma other_aggregates_ignore_date:
  "avg_salary_by_job (set_dates d v) = avg_salary_by_job v
   \<and> box_points (set_dates d v) = box_points v
   \<and> loc_count (set_dates d v) = loc_count v
   \<and> top_skills (set_dates d v) = top_skills v
   \<and> histplot_data (set_dates d v) = histplot_data v"
  by (simp add: set_dates_def avg_salary_by_job_def groupby_mean_def box_points_def loc_count_def
        top_skills_def all_skills_def skills_series_def histplot_data_def o_def filter_map)

text \<open>
  C4, as stated, fails: the trend has an entry for every month between the earliest and
  the latest parsed date, also for a month in which no row falls. With one row dated
  2024-01-15 and one dated 2024-03-10 the trend has three entries, the one of February
  2024 with a missing mean, while the months present in the data are January and March.
\<close>

theorem C4_month_absent_from_data_counterexample:
  "Date \<in> set (columns gap_table)
   \<and> months_present iso_date (rows gap_table) = [(2024, 1), (2024, 3)]
   \<and> df_time iso_date gap_table =
       Some [((2024, 1), Some 100000), ((2024, 2), None), ((2024, 3), Some 120000)]
   \<and> set (map fst (the (df_time iso_date gap_table))) \<noteq> set (months_present iso_date (rows gap_table))"
  by code_simp

text \<open>
  C4, amended. When the table has a Date column the trend is computed (otherwise not).
  It has exactly one entry for every calendar month from the month of the earliest to
  the month of the latest validly parsed date, and none when no date parses; every month
  present among the parsed dates has its entry; the entries are in strictly
  chronological order, no month twice; each entry carries the mean Salary of the rows
  whose Date parses into that month (missing when there is no such row), so that a row
  whose Date is missing or fails to parse contributes to no entry. No other aggregate
  reads the Date column: replacing the Date cells leaves each of them unchanged.
\<close>

theorem C4_monthly_trend:
  "df_time parse v = (if Date \<in> set (columns v) then Some (monthly_trend parse (rows v)) else None)
   \<and> map fst (monthly_trend parse (rows v)) =
        (let K = dropna (map (row_month_index parse (rows v)) (rows v))
         in if K = [] then [] else map month_label [Min (set K) .. Max (set K)])
   \<and> set (months_present parse (rows v)) \<subseteq> set (map fst (monthly_trend parse (rows v)))
   \<and> sorted_wrt chron (map fst (monthly_trend parse (rows v)))
   \<and> distinct (map fst (monthly_trend parse (rows v)))
   \<and> (\<forall>(m, x)\<in>set (monthly_trend parse (rows v)).
         x = mean (map salary (filter
               (\<lambda>r. map_option month_label (row_month_index parse (rows v) r) = Some m) (rows v))))
   \<and> avg_salary_by_job (set_dates d v) = avg_salary_by_job v
   \<and> box_points (set_dates d v) = box_points v
   \<and> loc_count (set_dates d v) = loc_count v
   \<and> top_skills (set_dates d v) = top_skills v
   \<and> histplot_data (set_dates d v) = histplot_data v"
proof -
  have irrefl: "\<And>a. \<not> chron a a" by auto
  have "distinct (map fst (monthly_trend parse (rows v)))"
    using monthly_trend_sorted[of parse "rows v"] irrefl
    by (metis (full_types) distinct_conv_nth sorted_wrt_iff_nth_less nat_neq_iff)
  moreover have "\<forall>(m, x)\<in>set (monthly_trend parse (rows v)).
         x = mean (map salary (filter
               (\<lambda>r. map_option month_label (row_month_index parse (rows v) r) = Some m) (rows v)))"
    using monthly_trend_entries by blast
  ultimately show ?thesis
    using monthly_trend_months[of parse "rows v"]
      months_present_covered[of parse "rows v"] monthly_trend_sorted[of parse "rows v"]
      other_aggregates_ignore_date[of d v]
    by (intro conjI) (simp add: df_time_def, blast+)
qed

text \<open>
  C4 amended, on the specification's scenario: of the two Date cells \<open>not-a-date\<close> and
  \<open>2024-01-15\<close> only the second parses; the trend has the single entry of January 2024
  with the salary of that row, and the job counts do not change when the Date cells are
  erased.
\<close>

theorem C4_monthly_trend_witness:
  "Date \<in> set (columns bad_date_table)
   \<and> map (row_month_index iso_date (rows bad_date_table)) (rows bad_date_table) = [None, Some 24288]
   \<and> df_time iso_date bad_date_table = Some [((2024, 1), Some 120000)]
   \<and> mean (map salary (filter
        (\<lambda>r. map_option month_label (row_month_index iso_date (rows bad_date_table) r) = Some (2024, 1))
        (rows bad_date_table))) = Some 120000
   \<and> loc_count (set_dates (\<lambda>r. None) bad_date_table) = loc_count bad_date_table"
proof -
  have i: "map (row_month_index iso_date (rows bad_date_table)) (rows bad_date_table) = [None, Some 24288]"
    by code_simp
  have t: "monthly_trend iso_date (rows bad_date_table) = [((2024, 1), Some 120000)]"
    by code_simp
  have c: "Date \<in> set (columns bad_date_table)" by code_simp
  note C = C4_monthly_trend [of iso_date bad_date_table "\<lambda>r. None"]
  from C c have "df_time iso_date bad_date_table = Some (monthly_trend iso_date (rows bad_date_table))"
    by simp
  moreover from C have "\<forall>(m, x)\<in>set (monthly_trend iso_date (rows bad_date_table)).
         x = mean (map salary (filter
               (\<lambda>r. map_option month_label (row_month_index iso_date (rows bad_date_table) r) = Some m)
               (rows bad_date_table)))"
    by blast
  moreover from C have "loc_count (set_dates (\<lambda>r. None) bad_date_table) = loc_count bad_date_table"
    by blast
  ultimately show ?thesis using i c unfolding t by simp
qed

section \<open>Empty views\<close>



section \<open>Export and re-load\<close>

text \<open>
  The conditions under which the loader gives back the cells of a view. A text column
  is kept when none of its texts is a marker of a missing value or holds a carriage
  return (which the writer leaves unquoted and the tokenizer reads as the end of a line)
  and, unless all its cells are missing, one of its texts does not read as a number and
  one is not a word for true or false. A salary is kept when its written form reads back
  as the same number. A table is well formed when it has the five required columns and
  no column twice.
\<close>

definition text_column_ok :: "(string \<Rightarrow> rat option) \<Rightarrow> string option list \<Rightarrow> bool" where
  "text_column_ok num cs =
     (let ts = dropna cs in
      list_all (\<lambda>s. s \<notin> set na_values \<and> CR \<notin> set s) ts \<and>
      (ts = [] \<or>
       (list_ex (\<lambda>s. num s = None) ts \<and> list_ex (\<lambda>s. s \<notin> set (true_values @ false_values)) ts)))"

definition number_ok :: "(rat \<Rightarrow> string) \<Rightarrow> (string \<Rightarrow> rat option) \<Rightarrow> rat \<Rightarrow> bool" where
  "number_ok fmt num q = (num (fmt q) = Some q \<and> fmt q \<notin> set na_values \<and> CR \<notin> set (fmt q))"

definition column_ok :: "(rat \<Rightarrow> string) \<Rightarrow> (string \<Rightarrow> rat option) \<Rightarrow> row list \<Rightarrow> col \<Rightarrow> bool" where
  "column_ok fmt num rs c =
     (case c of
        Job_Title \<Rightarrow> text_column_ok num (map job_title rs)
      | Industry \<Rightarrow> text_column_ok num (map industry rs)
      | Location \<Rightarrow> text_column_ok num (map location rs)
      | Salary \<Rightarrow> list_all (number_ok fmt num) (dropna (map salary rs))
      | Skills \<Rightarrow> text_column_ok num (map skills rs)
      | Date \<Rightarrow> text_column_ok num (map date rs))"

definition wf_table :: "table \<Rightarrow> bool" where
  "wf_table v =
     (distinct (columns v) \<and>
      list_all (\<lambda>c. c \<in> set (columns v)) [Job_Title, Industry, Location, Salary, Skills])"

definition reloadable :: "(rat \<Rightarrow> string) \<Rightarrow> (string \<Rightarrow> rat option) \<Rightarrow> table \<Rightarrow> bool" where
  "reloadable fmt num v = (wf_table v \<and> list_all (column_ok fmt num (rows v)) (columns v))"

lemma specials_distinct:
  "LF \<noteq> CR" "LF \<noteq> QUOTE" "LF \<noteq> COMMA" "CR \<noteq> QUOTE" "CR \<noteq> COMMA" "QUOTE \<noteq> COMMA"
  "SPACE \<noteq> LF" "SPACE \<noteq> CR" "SPACE \<noteq> QUOTE" "SPACE \<noteq> COMMA"
  "TAB \<noteq> LF" "TAB \<noteq> CR" "TAB \<noteq> QUOTE" "TAB \<noteq> COMMA"
  by (simp_all add: LF_def CR_def QUOTE_def COMMA_def SPACE_def TAB_def)

lemma foldl_step_plain:
  "\<not> needs_quote f \<Longrightarrow> CR \<notin> set f \<Longrightarrow>
     foldl step (IN_FIELD, fld, rec, recs) f = (IN_FIELD, fld @ f, rec, recs)"
  by (induction f arbitrary: fld) (auto simp: needs_quote_def in_field_def)

lemma foldl_step_escaped:
  "foldl step (IN_QUOTED_FIELD, fld, rec, recs) (escape_quotes f) = (IN_QUOTED_FIELD, fld @ f, rec, recs)"
  by (induction f arbitrary: fld) auto

lemma foldl_step_field:
  assumes "CR \<notin> set f" and "t = COMMA \<or> t = LF"
  shows "foldl step (START_FIELD, [], rec, recs) (quote_field f @ [t]) =
           (if t = COMMA then (START_FIELD, [], rec @ [f], recs)
            else (START_RECORD, [], [], recs @ [rec @ [f]]))"
proof (cases "needs_quote f")
  case True
  have "foldl step (START_FIELD, [], rec, recs) (quote_field f @ [t])
        = step (step (foldl step (IN_QUOTED_FIELD, [], rec, recs) (escape_quotes f)) QUOTE) t"
    using True specials_distinct by (simp add: quote_field_def start_field_def)
  also have "\<dots> = step (QUOTE_IN_QUOTED_FIELD, f, rec, recs) t"
    by (simp add: foldl_step_escaped)
  finally show ?thesis using assms(2) specials_distinct by auto
next
  case False
  show ?thesis
  proof (cases f)
    case Nil
    with False assms(2) specials_distinct show ?thesis
      by (auto simp: quote_field_def start_field_def)
  next
    case (Cons c cs)
    from False Cons have c: "c \<noteq> COMMA" "c \<noteq> QUOTE" "c \<noteq> LF" and cs: "\<not> needs_quote cs"
      by (auto simp: needs_quote_def)
    from assms(1) Cons have c': "c \<noteq> CR" and cs': "CR \<notin> set cs" by auto
    have "foldl step (START_FIELD, [], rec, recs) (quote_field f @ [t])
          = step (foldl step (IN_FIELD, [c], rec, recs) cs) t"
      using False Cons c c' by (simp add: quote_field_def start_field_def)
    also have "\<dots> = step (IN_FIELD, f, rec, recs) t"
      using foldl_step_plain[OF cs cs', of "[c]" rec recs] Cons by simp
    finally show ?thesis using assms(2) specials_distinct by (auto simp: in_field_def)
  qed
qed

lemma foldl_step_fields:
  assumes "fs \<noteq> []" and "\<forall>f\<in>set fs. CR \<notin> set f"
  shows "foldl step (START_FIELD, [], rec, recs) (join COMMA (map quote_field fs) @ [LF]) =
           (START_RECORD, [], [], recs @ [rec @ fs])"
  using assms
proof (induction fs arbitrary: rec)
  case Nil then show ?case by simp
next
  case (Cons f fs)
  show ?case
  proof (cases fs)
    case Nil
    with Cons.prems show ?thesis using foldl_step_field[of f LF rec recs] specials_distinct by simp
  next
    case (Cons g gs)
    have "join COMMA (map quote_field (f # g # gs)) @ [LF]
          = (quote_field f @ [COMMA]) @ (join COMMA (map quote_field (g # gs)) @ [LF])"
      by simp
    then have "foldl step (START_FIELD, [], rec, recs) (join COMMA (map quote_field (f # g # gs)) @ [LF])
          = foldl step (foldl step (START_FIELD, [], rec, recs) (quote_field f @ [COMMA]))
              (join COMMA (map quote_field (g # gs)) @ [LF])"
      by (simp only: foldl_append)
    also have "foldl step (START_FIELD, [], rec, recs) (quote_field f @ [COMMA])
          = (START_FIELD, [], rec @ [f], recs)"
      using foldl_step_field[of f COMMA rec recs] Cons.prems by simp
    also have "foldl step (START_FIELD, [], rec @ [f], recs) (join COMMA (map quote_field (g # gs)) @ [LF])
          = (START_RECORD, [], [], recs @ [(rec @ [f]) @ (g # gs)])"
      using Cons.prems Cons Cons.IH[of "rec @ [f]"] by simp
    finally show ?thesis using Cons by simp
  qed
qed

lemma foldl_step_blanks:
  "\<forall>c\<in>set w. c = SPACE \<or> c = TAB \<Longrightarrow>
     foldl step (WHITESPACE_LINE, fld, [], recs) w = (WHITESPACE_LINE, fld @ w, [], recs)"
  using specials_distinct by (induction w arbitrary: fld) auto

lemma blanks_plain:
  assumes "\<forall>c\<in>set w. c = SPACE \<or> c = TAB"
  shows "\<not> needs_quote w" and "CR \<notin> set w"
  using assms specials_distinct by (auto simp: needs_quote_def list_ex_iff)

lemma start_line_same:
  assumes w: "\<forall>c\<in>set w. c = SPACE \<or> c = TAB"
    and d: "d \<noteq> SPACE" "d \<noteq> TAB" "d \<noteq> LF" "d \<noteq> CR"
  shows "foldl step (START_RECORD, [], [], recs) (w @ d # rest)
       = foldl step (START_FIELD, [], [], recs) (w @ d # rest)"
proof (cases w)
  case Nil
  with d show ?thesis by (simp add: start_record_def)
next
  case (Cons c cs)
  with w have c: "c = SPACE \<or> c = TAB" and cs: "\<forall>c\<in>set cs. c = SPACE \<or> c = TAB" by auto
  have r: "foldl step (START_RECORD, [], [], recs) w = (WHITESPACE_LINE, w, [], recs)"
    using c specials_distinct foldl_step_blanks[OF cs, of "[c]" recs]
    by (auto simp: Cons start_record_def)
  have f: "foldl step (START_FIELD, [], [], recs) w = (IN_FIELD, w, [], recs)"
    using c specials_distinct foldl_step_plain[OF blanks_plain[OF cs], of "[c]" "[]" recs]
    by (auto simp: Cons start_field_def)
  have "step (WHITESPACE_LINE, w, [], recs) d = step (IN_FIELD, w, [], recs) d"
    using d by simp
  then show ?thesis by (simp only: foldl_append foldl_Cons r f)
qed

lemma csv_line_start:
  assumes "2 \<le> length fs" and "\<forall>f\<in>set fs. CR \<notin> set f"
  shows "\<exists>w d rest. join COMMA (map quote_field fs) @ [LF] = w @ d # rest \<and>
           (\<forall>c\<in>set w. c = SPACE \<or> c = TAB) \<and> d \<noteq> SPACE \<and> d \<noteq> TAB \<and> d \<noteq> LF \<and> d \<noteq> CR"
proof -
  from assms(1) obtain f g gs where fs: "fs = f # g # gs"
    by (cases fs; cases "tl fs") auto
  let ?R = "join COMMA (map quote_field (g # gs)) @ [LF]"
  have j: "join COMMA (map quote_field fs) @ [LF] = quote_field f @ COMMA # ?R"
    by (simp add: fs)
  show ?thesis
  proof (cases "needs_quote f")
    case True
    then have "join COMMA (map quote_field fs) @ [LF] = [] @ QUOTE # (escape_quotes f @ [QUOTE] @ COMMA # ?R)"
      using j by (simp add: quote_field_def)
    moreover have "QUOTE \<noteq> SPACE \<and> QUOTE \<noteq> TAB \<and> QUOTE \<noteq> LF \<and> QUOTE \<noteq> CR"
      using specials_distinct by metis
    ultimately show ?thesis by (metis empty_iff empty_set)
  next
    case False
    let ?b = "\<lambda>c. c = SPACE \<or> c = TAB"
    have q: "quote_field f = takeWhile ?b f @ dropWhile ?b f"
      using False by (simp add: quote_field_def)
    have w: "\<forall>c\<in>set (takeWhile ?b f). c = SPACE \<or> c = TAB"
      by (metis (mono_tags, lifting) set_takeWhileD)
    show ?thesis
    proof (cases "dropWhile ?b f")
      case Nil
      with q have "quote_field f = takeWhile ?b f" by (simp only: append_Nil2)
      then have "join COMMA (map quote_field fs) @ [LF] = takeWhile ?b f @ COMMA # ?R"
        using j by (simp only:)
      moreover have "COMMA \<noteq> SPACE \<and> COMMA \<noteq> TAB \<and> COMMA \<noteq> LF \<and> COMMA \<noteq> CR"
        using specials_distinct by metis
      ultimately show ?thesis using w by blast
    next
      case (Cons d ds)
      then have "\<not> ?b d" by (metis (mono_tags, lifting) hd_dropWhile list.sel(1) list.distinct(1))
      moreover have "d \<in> set f" using Cons by (metis list.set_intros(1) set_dropWhileD)
      then have "d \<noteq> LF" "d \<noteq> CR"
        using False assms(2) fs by (auto simp: needs_quote_def list_ex_iff)
      moreover have "join COMMA (map quote_field fs) @ [LF] = takeWhile ?b f @ d # (ds @ COMMA # ?R)"
        unfolding j q Cons by simp
      ultimately show ?thesis using w by blast
    qed
  qed
qed

lemma foldl_step_line:
  assumes "2 \<le> length fs" and "\<forall>f\<in>set fs. CR \<notin> set f"
  shows "foldl step (START_RECORD, [], [], recs) (csv_line fs) = (START_RECORD, [], [], recs @ [fs])"
proof -
  from assms(1) have ne: "fs \<noteq> []" "fs \<noteq> [[]]" by auto
  obtain w d rest where l: "join COMMA (map quote_field fs) @ [LF] = w @ d # rest"
    and w: "\<forall>c\<in>set w. c = SPACE \<or> c = TAB"
    and d: "d \<noteq> SPACE" "d \<noteq> TAB" "d \<noteq> LF" "d \<noteq> CR"
    using csv_line_start[OF assms] by blast
  have "foldl step (START_RECORD, [], [], recs) (w @ d # rest)
      = foldl step (START_FIELD, [], [], recs) (w @ d # rest)"
    using w d by (rule start_line_same)
  then show ?thesis
    using foldl_step_fields[OF ne(1) assms(2), of "[]" recs] ne(2) l by (simp add: csv_line_def)
qed

lemma foldl_step_lines:
  assumes "\<forall>fs\<in>set ls. 2 \<le> length fs \<and> (\<forall>f\<in>set fs. CR \<notin> set f)"
  shows "foldl step (START_RECORD, [], [], recs) (concat (map csv_line ls)) = (START_RECORD, [], [], recs @ ls)"
  using assms
proof (induction ls arbitrary: recs)
  case Nil show ?case by simp
next
  case (Cons l ls)
  then have "foldl step (START_RECORD, [], [], recs) (csv_line l) = (START_RECORD, [], [], recs @ [l])"
    by (intro foldl_step_line) auto
  with Cons show ?case by simp
qed

text \<open>
  The tokenizer reads back what the writer wrote: records of at least two fields, no
  field with a carriage return.
\<close>

lemma csv_records_lines:
  assumes "\<forall>fs\<in>set ls. 2 \<le> length fs \<and> (\<forall>f\<in>set fs. CR \<notin> set f)"
  shows "csv_records (concat (map csv_line ls)) = Inr ls"
  using foldl_step_lines[OF assms, of "[]"] by (simp add: csv_records_def)

lemma empty_is_na: "[] \<in> set na_values"
  by (simp add: na_values_def)

lemma infer_text:
  assumes "text_column_ok num cs"
  shows "infer_column num (map (\<lambda>x. cell_text fmt (text_cell x)) cs) = map text_cell cs"
proof -
  let ?fs = "map (\<lambda>x. cell_text fmt (text_cell x)) cs"
  from assms have na: "\<And>s. Some s \<in> set cs \<Longrightarrow> s \<notin> set na_values"
    by (auto simp: text_column_ok_def Let_def list_all_iff set_dropna)
  have cell: "\<And>x. x \<in> set cs \<Longrightarrow>
      (if cell_text fmt (text_cell x) \<in> set na_values then NaN else Str (cell_text fmt (text_cell x)))
      = text_cell x"
    using na empty_is_na by (auto simp: cell_text_def text_cell_def split: option.splits)
  have present: "filter (\<lambda>f. f \<notin> set na_values) ?fs = dropna cs"
    using na
  proof (induction cs)
    case Nil show ?case by simp
  next
    case (Cons x cs)
    then show ?case using empty_is_na by (cases x) (auto simp: cell_text_def text_cell_def)
  qed
  show ?thesis
  proof (cases "dropna cs = []")
    case True
    then have none: "\<And>x. x \<in> set cs \<Longrightarrow> x = None"
      using set_dropna[of cs] by (metis empty_iff empty_set mem_Collect_eq not_None_eq)
    have n: "\<And>x. x \<in> set cs \<Longrightarrow> cell_text fmt (text_cell x) \<in> set na_values \<and> text_cell x = NaN"
    proof -
      fix x assume "x \<in> set cs"
      then have "x = None" by (rule none)
      then show "cell_text fmt (text_cell x) \<in> set na_values \<and> text_cell x = NaN"
        using empty_is_na by (simp add: cell_text_def text_cell_def)
    qed
    have "infer_column num ?fs =
        map (\<lambda>f. if f \<in> set na_values then NaN else (case num f of None \<Rightarrow> NaN | Some q \<Rightarrow> Num q)) ?fs"
      unfolding infer_column_def Let_def present by (simp add: True)
    also have "\<dots> = map text_cell cs"
      unfolding map_map o_def by (rule map_cong[OF refl]) (simp add: n cell_text_def empty_is_na)
    finally show ?thesis .
  next
    case False
    with assms have "list_ex (\<lambda>s. num s = None) (dropna cs)"
      and "list_ex (\<lambda>s. s \<notin> set (true_values @ false_values)) (dropna cs)"
      by (auto simp: text_column_ok_def Let_def)
    then have "\<not> list_all (\<lambda>f. num f \<noteq> None) (dropna cs)"
      and "\<not> list_all (\<lambda>f. f \<in> set (true_values @ false_values)) (dropna cs)"
      by (auto simp: list_ex_iff list_all_iff)
    then have "infer_column num ?fs = map (\<lambda>f. if f \<in> set na_values then NaN else Str f) ?fs"
      unfolding infer_column_def Let_def present by simp
    also have "\<dots> = map text_cell cs" using cell by (simp add: o_def)
    finally show ?thesis .
  qed
qed

lemma infer_num:
  assumes "list_all (number_ok fmt num) (dropna cs)"
  shows "infer_column num (map (\<lambda>x. cell_text fmt (num_cell x)) cs) = map num_cell cs"
proof -
  let ?fs = "map (\<lambda>x. cell_text fmt (num_cell x)) cs"
  from assms have ok: "\<And>q. Some q \<in> set cs \<Longrightarrow> number_ok fmt num q"
    by (auto simp: list_all_iff set_dropna)
  have cell: "\<And>x. x \<in> set cs \<Longrightarrow>
      (if cell_text fmt (num_cell x) \<in> set na_values then NaN
       else (case num (cell_text fmt (num_cell x)) of None \<Rightarrow> NaN | Some q \<Rightarrow> Num q))
      = num_cell x"
    using ok empty_is_na by (auto simp: cell_text_def num_cell_def number_ok_def split: option.splits)
  have "list_all (\<lambda>f. num f \<noteq> None) (filter (\<lambda>f. f \<notin> set na_values) ?fs)"
    using ok empty_is_na
    by (auto simp: list_all_iff cell_text_def num_cell_def number_ok_def split: option.splits)
  then have "infer_column num ?fs =
      map (\<lambda>f. if f \<in> set na_values then NaN else (case num f of None \<Rightarrow> NaN | Some q \<Rightarrow> Num q)) ?fs"
    unfolding infer_column_def Let_def by simp
  also have "\<dots> = map num_cell cs" using cell by (simp add: o_def)
  finally show ?thesis .
qed

lemma infer_cells:
  assumes "column_ok fmt num rs c"
  shows "infer_column num (map (\<lambda>r. cell_text fmt (cell_of c r)) rs) = map (cell_of c) rs"
proof (cases c)
  case Job_Title
  with assms infer_text[of num "map job_title rs" fmt] show ?thesis
    by (simp add: column_ok_def cell_of_def o_def)
next
  case Industry
  with assms infer_text[of num "map industry rs" fmt] show ?thesis
    by (simp add: column_ok_def cell_of_def o_def)
next
  case Location
  with assms infer_text[of num "map location rs" fmt] show ?thesis
    by (simp add: column_ok_def cell_of_def o_def)
next
  case Salary
  with assms infer_num[of fmt num "map salary rs"] show ?thesis
    by (simp add: column_ok_def cell_of_def o_def)
next
  case Skills
  with assms infer_text[of num "map skills rs" fmt] show ?thesis
    by (simp add: column_ok_def cell_of_def o_def)
next
  case Date
  with assms infer_text[of num "map date rs" fmt] show ?thesis
    by (simp add: column_ok_def cell_of_def o_def)
qed

lemma no_CR_col_name: "CR \<notin> set (col_name c)"
  by (cases c) (simp_all add: col_name_def CR_def)

lemma no_CR_cell:
  assumes "column_ok fmt num rs c" and "r \<in> set rs"
  shows "CR \<notin> set (cell_text fmt (cell_of c r))"
proof -
  have t: "\<And>f. text_column_ok num (map f rs) \<Longrightarrow> CR \<notin> set (cell_text fmt (text_cell (f r)))"
  proof -
    fix f assume "text_column_ok num (map f rs)"
    then have "\<And>s. Some s \<in> set (map f rs) \<Longrightarrow> CR \<notin> set s"
      by (auto simp: text_column_ok_def Let_def list_all_iff set_dropna)
    moreover from assms(2) have "f r \<in> set (map f rs)" by simp
    ultimately show "CR \<notin> set (cell_text fmt (text_cell (f r)))"
      by (cases "f r") (auto simp: cell_text_def text_cell_def)
  qed
  show ?thesis
  proof (cases c)
    case Salary
    with assms have "\<And>q. salary r = Some q \<Longrightarrow> number_ok fmt num q"
      by (auto simp: column_ok_def list_all_iff set_dropna image_iff) metis
    with Salary show ?thesis
      by (cases "salary r") (auto simp: cell_of_def cell_text_def num_cell_def number_ok_def)
  qed (use assms(1) t in \<open>auto simp: column_ok_def cell_of_def\<close>)
qed

lemma wf_table_length: "wf_table v \<Longrightarrow> 2 \<le> length (columns v)"
proof -
  assume "wf_table v"
  then have "{Job_Title, Industry} \<subseteq> set (columns v)" by (simp add: wf_table_def)
  then have "card {Job_Title, Industry} \<le> card (set (columns v))" by (intro card_mono) auto
  also have "\<dots> \<le> length (columns v)" by (rule card_length)
  finally show ?thesis by simp
qed

lemma to_csv_records:
  assumes "reloadable fmt num v"
  shows "csv_records (to_csv fmt v) = Inr (export_records fmt v)"
proof -
  from assms have wf: "wf_table v" and ok: "\<And>c. c \<in> set (columns v) \<Longrightarrow> column_ok fmt num (rows v) c"
    by (auto simp: reloadable_def list_all_iff)
  have len: "2 \<le> length (columns v)" using wf by (rule wf_table_length)
  have "\<forall>fs\<in>set (export_records fmt v). 2 \<le> length fs \<and> (\<forall>f\<in>set fs. CR \<notin> set f)"
    using len ok no_CR_col_name no_CR_cell[of fmt num "rows v"]
    by (auto simp: export_records_def)
  then have "csv_records (concat (map csv_line (export_records fmt v))) = Inr (export_records fmt v)"
    by (rule csv_records_lines)
  then show ?thesis by (simp add: to_csv_def export_records_def)
qed

lemma pad_full: "length r = n \<Longrightarrow> pad n r = r"
  by (simp add: pad_def)

lemma read_csv_to_csv:
  assumes "reloadable fmt num v"
  shows "read_csv num (to_csv fmt v) = Inr (frame_of v)"
proof -
  let ?cs = "columns v"
  let ?n = "length ?cs"
  let ?data = "map (\<lambda>r. map (\<lambda>c. cell_text fmt (cell_of c r)) ?cs) (rows v)"
  from assms have ok: "\<And>c. c \<in> set ?cs \<Longrightarrow> column_ok fmt num (rows v) c"
    by (auto simp: reloadable_def list_all_iff)
  have rec: "csv_records (to_csv fmt v) = Inr (map col_name ?cs # ?data)"
    using to_csv_records[OF assms] by (simp add: export_records_def)
  have rect: "list_all (\<lambda>r. length r \<le> length (map col_name ?cs)) ?data"
    by (simp add: list_all_iff)
  have col: "\<And>i. i < ?n \<Longrightarrow>
      (map col_name ?cs ! i, infer_column num (map (\<lambda>r. pad (length (map col_name ?cs)) r ! i) ?data))
      = (col_name (?cs ! i), map (cell_of (?cs ! i)) (rows v))"
  proof -
    fix i assume i: "i < ?n"
    have d: "map (\<lambda>r. pad (length (map col_name ?cs)) r ! i) ?data
          = map (\<lambda>r. cell_text fmt (cell_of (?cs ! i) r)) (rows v)"
      using i by (simp add: pad_full o_def)
    have c: "column_ok fmt num (rows v) (?cs ! i)" using i ok by simp
    have "infer_column num (map (\<lambda>r. pad (length (map col_name ?cs)) r ! i) ?data)
          = infer_column num (map (\<lambda>r. cell_text fmt (cell_of (?cs ! i) r)) (rows v))"
      by (simp only: d)
    also have "\<dots> = map (cell_of (?cs ! i)) (rows v)" using c by (rule infer_cells)
    finally have "infer_column num (map (\<lambda>r. pad (length (map col_name ?cs)) r ! i) ?data)
          = map (cell_of (?cs ! i)) (rows v)" .
    moreover have "map col_name ?cs ! i = col_name (?cs ! i)" using i by simp
    ultimately show "(map col_name ?cs ! i,
        infer_column num (map (\<lambda>r. pad (length (map col_name ?cs)) r ! i) ?data))
      = (col_name (?cs ! i), map (cell_of (?cs ! i)) (rows v))"
      by (simp only:)
  qed
  have "read_csv num (to_csv fmt v)
        = Inr (map (\<lambda>i. (map col_name ?cs ! i,
                         infer_column num (map (\<lambda>r. pad (length (map col_name ?cs)) r ! i) ?data)))
                 [0..<length (map col_name ?cs)])"
    unfolding read_csv_def rec using rect by simp
  also have "map (\<lambda>i. (map col_name ?cs ! i,
                         infer_column num (map (\<lambda>r. pad (length (map col_name ?cs)) r ! i) ?data)))
                 [0..<length (map col_name ?cs)]
           = map (\<lambda>i. (col_name (?cs ! i), map (cell_of (?cs ! i)) (rows v))) [0..<?n]"
    using col by (intro map_cong) auto
  also have "\<dots> = map (\<lambda>c. (col_name c, map (cell_of c) (rows v))) (map (\<lambda>i. ?cs ! i) [0..<?n])"
    by (simp add: o_def)
  also have "\<dots> = frame_of v" by (simp only: map_nth frame_of_def)
  finally show ?thesis .
qed

text \<open>
  C8, as stated, fails: loading the exported text back can change a value. In a table
  whose Location column holds NY and 10001, both cells are texts. The view filtered to
  Location = {10001} is exported as the header line and the line
  \<^verbatim>\<open>Data Scientist,Tech,10001,120000,Python\<close>; loaded back, its Location column holds the
  number 10001, not the text.
\<close>

theorem C8_reload_changes_value_counterexample:
  "rows (filtered_df zip_table [] [] [Some ''10001'']) =
     [mk_row ''Data Scientist'' ''Tech'' ''10001'' 120000 ''Python'']
   \<and> csv str_int (filtered_df zip_table [] [] [Some ''10001'']) =
       ''Job Title,Industry,Location,Salary,Skills'' @ [LF]
       @ ''Data Scientist,Tech,10001,120000,Python'' @ [LF]
   \<and> read_csv int_literal (csv str_int (filtered_df zip_table [] [] [Some ''10001''])) =
       Inr [(''Job Title'', [Str ''Data Scientist'']), (''Industry'', [Str ''Tech'']),
            (''Location'', [Num 10001]), (''Salary'', [Num 120000]), (''Skills'', [Str ''Python''])]
   \<and> frame_of (filtered_df zip_table [] [] [Some ''10001'']) =
       [(''Job Title'', [Str ''Data Scientist'']), (''Industry'', [Str ''Tech'']),
        (''Location'', [Str ''10001'']), (''Salary'', [Num 120000]), (''Skills'', [Str ''Python''])]
   \<and> read_csv int_literal (csv str_int (filtered_df zip_table [] [] [Some ''10001'']))
       \<noteq> Inr (frame_of (filtered_df zip_table [] [] [Some ''10001'']))"
  by code_simp

text \<open>
  C8, amended. The exporter writes the filtered view as comma-delimited text (a \<open>str\<close>
  in its UTF-8 bytes): the line of the column names in the column order of the source
  table, then one line per row of the view in view order. When the view is reloadable
  (see above), reading the text as CSV records gives back exactly the column names and
  the cell texts written, and loading it with the loader gives back the frame of the
  view: the same columns in the same order, with the same cell values.
\<close>

theorem C8_export_round_trip:
  "reloadable fmt num (filtered_df df sj si sl) \<Longrightarrow>
     csv fmt (filtered_df df sj si sl) = concat (map csv_line (export_records fmt (filtered_df df sj si sl)))
   \<and> hd (export_records fmt (filtered_df df sj si sl)) = map col_name (columns df)
   \<and> csv_records (csv fmt (filtered_df df sj si sl)) = Inr (export_records fmt (filtered_df df sj si sl))
   \<and> read_csv num (csv fmt (filtered_df df sj si sl)) = Inr (frame_of (filtered_df df sj si sl))"
  by (simp add: csv_def encode_utf8_def to_csv_records read_csv_to_csv)
     (simp add: to_csv_def export_records_def columns_filtered_df)

text \<open>
  C8 amended, on the scenario table filtered to Location = {NY}: the view is reloadable;
  the Skills cell \<^verbatim>\<open>Python, SQL\<close> is written in quotes; the text loads back to the view.
\<close>

theorem C8_export_round_trip_witness:
  "reloadable str_int int_literal (filtered_df scenario [] [] [Some ''NY''])
   \<and> csv str_int (filtered_df scenario [] [] [Some ''NY'']) =
       ''Job Title,Industry,Location,Salary,Skills'' @ [LF]
       @ ''Data Scientist,Tech,NY,100000,'' @ [QUOTE] @ ''Python, SQL'' @ [QUOTE, LF]
       @ ''Analyst,Finance,NY,70000,SQL'' @ [LF]
   \<and> read_csv int_literal (csv str_int (filtered_df scenario [] [] [Some ''NY'']))
       = Inr (frame_of (filtered_df scenario [] [] [Some ''NY'']))
   \<and> frame_of (filtered_df scenario [] [] [Some ''NY'']) =
       [(''Job Title'', [Str ''Data Scientist'', Str ''Analyst'']),
        (''Industry'', [Str ''Tech'', Str ''Finance'']),
        (''Location'', [Str ''NY'', Str ''NY'']),
        (''Salary'', [Num 100000, Num 70000]),
        (''Skills'', [Str ''Python, SQL'', Str ''SQL''])]"
proof -
  have r: "reloadable str_int int_literal (filtered_df scenario [] [] [Some ''NY''])"
    by code_simp
  have t: "csv str_int (filtered_df scenario [] [] [Some ''NY'']) =
       ''Job Title,Industry,Location,Salary,Skills'' @ [LF]
       @ ''Data Scientist,Tech,NY,100000,'' @ [QUOTE] @ ''Python, SQL'' @ [QUOTE, LF]
       @ ''Analyst,Finance,NY,70000,SQL'' @ [LF]"
    by code_simp
  have f: "frame_of (filtered_df scenario [] [] [Some ''NY'']) =
       [(''Job Title'', [Str ''Data Scientist'', Str ''Analyst'']),
        (''Industry'', [Str ''Tech'', Str ''Finance'']),
        (''Location'', [Str ''NY'', Str ''NY'']),
        (''Salary'', [Num 100000, Num 70000]),
        (''Skills'', [Str ''Python, SQL'', Str ''SQL''])]"
    by code_simp
  from C8_export_round_trip [OF r]
  have "read_csv int_literal (csv str_int (filtered_df scenario [] [] [Some ''NY'']))
       = Inr (frame_of (filtered_df scenario [] [] [Some ''NY'']))"
    by blast
  with r t f show ?thesis by blast
qed

end
